theory Spec2Isabelle
  imports Main
begin

section \<open>Strings\<close>

text \<open>
  A Python \<open>str\<close> is a sequence of code points. The embedding takes \<open>string\<close>, whose
  characters are the code points below 256 (Latin-1), and gives \<open>str.isspace\<close>,
  \<open>str.lower\<close> and \<open>str.isalnum\<close> the value Python gives them on that range:
  \<open>isspace\<close> holds of the white space that \<open>str.strip()\<close> removes, \<open>isupper\<close> of the
  characters that have a lower-case form, 32 code points further, and \<open>isalnum\<close> of
  the letters, digits and other numeric characters, those beyond ASCII included.
\<close>

definition ord :: "char \<Rightarrow> int" where
  "ord c = of_char c"

definition isspace :: "char \<Rightarrow> bool" where
  "isspace c = (let n = ord c in
     (9 \<le> n \<and> n \<le> 13) \<or> (28 \<le> n \<and> n \<le> 32) \<or> n = 133 \<or> n = 160)"

definition isupper :: "char \<Rightarrow> bool" where
  "isupper c = (let n = ord c in
     (65 \<le> n \<and> n \<le> 90) \<or> (192 \<le> n \<and> n \<le> 222 \<and> n \<noteq> 215))"

definition lower_chr :: "char \<Rightarrow> char" where
  "lower_chr c = (if isupper c then char_of (ord c + 32) else c)"

definition isalnum :: "char \<Rightarrow> bool" where
  "isalnum c = (let n = ord c in
     (48 \<le> n \<and> n \<le> 57) \<or> (65 \<le> n \<and> n \<le> 90) \<or> (97 \<le> n \<and> n \<le> 122) \<or>
     n = 170 \<or> n = 178 \<or> n = 179 \<or> n = 181 \<or> n = 185 \<or> n = 186 \<or>
     (188 \<le> n \<and> n \<le> 190) \<or> (192 \<le> n \<and> n \<le> 214) \<or> (216 \<le> n \<and> n \<le> 246) \<or>
     (248 \<le> n \<and> n \<le> 255))"

text \<open>The ASCII letters and digits, the class the specification speaks of.\<close>

definition ascii_alnum :: "char \<Rightarrow> bool" where
  "ascii_alnum c = (let n = ord c in
     (48 \<le> n \<and> n \<le> 57) \<or> (65 \<le> n \<and> n \<le> 90) \<or> (97 \<le> n \<and> n \<le> 122))"

definition isascii :: "char \<Rightarrow> bool" where
  "isascii c = (ord c < 128)"

definition str_strip :: "string \<Rightarrow> string" where
  "str_strip s = rev (dropWhile isspace (rev (dropWhile isspace s)))"

definition str_lower :: "string \<Rightarrow> string" where
  "str_lower s = map lower_chr s"

text \<open>\<open>sub in s\<close>: some suffix of \<open>s\<close> starts with \<open>sub\<close>.\<close>

fun str_contains :: "string \<Rightarrow> string \<Rightarrow> bool" where
  "str_contains sub [] = (sub = [])"
| "str_contains sub (c # cs) = (take (length sub) (c # cs) = sub \<or> str_contains sub cs)"

text \<open>
  \<open>s.replace(old, new)\<close> for a non-empty \<open>old\<close>: the occurrences are found from the
  left and do not overlap.
\<close>

function str_replace :: "string \<Rightarrow> string \<Rightarrow> string \<Rightarrow> string" where
  "str_replace old new [] = []"
| "str_replace old new (c # cs) =
     (if old \<noteq> [] \<and> take (length old) (c # cs) = old
      then new @ str_replace old new (drop (length old) (c # cs))
      else c # str_replace old new cs)"
  by pat_completeness auto
termination
  by (relation "measure (\<lambda>(old, new, s). length s)") (auto simp: neq_Nil_conv)

declare str_replace.simps(2) [simp del]

section \<open>Name normalizer\<close>

lemma take_eq_length: "take (length old) s = old \<Longrightarrow> length old \<le> length s"
proof -
  assume "take (length old) s = old"
  then have "length (take (length old) s) = length old" by simp
  then show ?thesis by simp
qed

lemma str_replace_length_le:
  "length new \<le> length old \<Longrightarrow> length (str_replace old new s) \<le> length s"
proof (induction old new s rule: str_replace.induct)
  case (1 old new)
  show ?case by simp
next
  case (2 old new c cs)
  show ?case
  proof (cases "old \<noteq> [] \<and> take (length old) (c # cs) = old")
    case True
    then have len: "length old \<le> length (c # cs)"
      using take_eq_length [of old "c # cs"] by blast
    from True 2 have "length (str_replace old new (drop (length old) (c # cs)))
        \<le> length (c # cs) - length old"
      by simp
    with True len "2.prems" show ?thesis
      by (simp add: str_replace.simps(2) [of old new c cs])
  next
    case False
    with 2 show ?thesis
      by (auto simp: str_replace.simps(2) [of old new c cs])
  qed
qed

lemma str_replace_length_less:
  "length new < length old \<Longrightarrow> str_contains old s \<Longrightarrow>
   length (str_replace old new s) < length s"
proof (induction old new s rule: str_replace.induct)
  case (1 old new)
  then show ?case by simp
next
  case (2 old new c cs)
  show ?case
  proof (cases "old \<noteq> [] \<and> take (length old) (c # cs) = old")
    case True
    then have len: "length old \<le> length (c # cs)"
      using take_eq_length [of old "c # cs"] by blast
    from "2.prems" have "length (str_replace old new (drop (length old) (c # cs)))
        \<le> length (c # cs) - length old"
      using str_replace_length_le [of new old "drop (length old) (c # cs)"] by simp
    with True len "2.prems" show ?thesis
      by (simp add: str_replace.simps(2) [of old new c cs])
  next
    case False
    with "2.prems" have "old \<noteq> []" "str_contains old cs" by auto
    with False 2 show ?thesis
      by (auto simp: str_replace.simps(2) [of old new c cs])
  qed
qed

text \<open>The loop \<open>while "__" in name: name = name.replace("__", "_")\<close>.\<close>

function collapse_underscores :: "string \<Rightarrow> string" where
  "collapse_underscores name =
     (if str_contains ''__'' name
      then collapse_underscores (str_replace ''__'' ''_'' name)
      else name)"
  by pat_completeness auto
termination
  by (relation "measure length") (auto intro: str_replace_length_less)

declare collapse_underscores.simps [simp del]

definition normalize_col_name :: "string \<Rightarrow> string" where
  "normalize_col_name name =
     collapse_underscores (str_replace '' '' ''_'' (str_lower (str_strip name)))"

definition canonical_key :: "string \<Rightarrow> string" where
  "canonical_key name = filter isalnum (normalize_col_name name)"




section \<open>Alias resolver\<close>

definition logical_fields :: "string list" where
  "logical_fields =
     [''state_of_residence'', ''month'', ''month_code'', ''year_code'', ''sex_of_infant'',
      ''births'']"

definition alias_map :: "string \<rightharpoonup> string set" where
  "alias_map =
     [''state_of_residence'' \<mapsto>
        {''stateofresidence'', ''stateresidence'', ''residencestate'', ''state''},
      ''month'' \<mapsto> {''month''},
      ''month_code'' \<mapsto> {''monthcode''},
      ''year_code'' \<mapsto> {''yearcode''},
      ''sex_of_infant'' \<mapsto>
        {''sexofinfant'', ''infantsex'', ''sex'', ''gender'', ''infantgender''},
      ''births'' \<mapsto>
        {''births'', ''birthcount'', ''birthcounts'', ''numberofbirths'', ''livebirths'',
         ''totalbirths''}]"

text \<open>\<open>alias_map.get(field, set())\<close>\<close>

definition alias_set :: "string \<Rightarrow> string set" where
  "alias_set field = (case alias_map field of None \<Rightarrow> {} | Some S \<Rightarrow> S)"

text \<open>
  Python does not fix the order in which a \<open>set\<close> of strings is iterated. The resolver
  takes that order as a parameter: \<open>iter field\<close> is the list of alias keys in the order
  in which \<open>for alias_ck in alias_map.get(field, set())\<close> visits them. Any such list
  enumerates the field's alias set once each.
\<close>

definition iteration_order :: "(string \<Rightarrow> string list) \<Rightarrow> bool" where
  "iteration_order iter =
     (\<forall>field \<in> set logical_fields. set (iter field) = alias_set field \<and> distinct (iter field))"

text \<open>The order in which the source text lists the aliases: one possible iteration.\<close>

definition written_order :: "string \<Rightarrow> string list" where
  "written_order field =
     (if field = ''state_of_residence''
        then [''stateofresidence'', ''stateresidence'', ''residencestate'', ''state'']
      else if field = ''month'' then [''month'']
      else if field = ''month_code'' then [''monthcode'']
      else if field = ''year_code'' then [''yearcode'']
      else if field = ''sex_of_infant''
        then [''sexofinfant'', ''infantsex'', ''sex'', ''gender'', ''infantgender'']
      else if field = ''births''
        then [''births'', ''birthcount'', ''birthcounts'', ''numberofbirths'', ''livebirths'',
              ''totalbirths'']
      else [])"

text \<open>\<open>canonical_to_cols.setdefault(ck, []).append(col)\<close> for every column.\<close>

definition index_column :: "string \<Rightarrow> (string \<rightharpoonup> string list) \<Rightarrow> (string \<rightharpoonup> string list)" where
  "index_column col idx =
     (let ck = canonical_key col
      in idx(ck \<mapsto> (case idx ck of None \<Rightarrow> [] | Some cs \<Rightarrow> cs) @ [col]))"

definition canonical_to_cols :: "string list \<Rightarrow> (string \<rightharpoonup> string list)" where
  "canonical_to_cols cols = fold index_column cols Map.empty"

text \<open>\<open>if ck in canonical_to_cols: candidates.extend(canonical_to_cols[ck])\<close>\<close>

definition extend_from :: "(string \<rightharpoonup> string list) \<Rightarrow> string \<Rightarrow> string list \<Rightarrow> string list" where
  "extend_from idx ck candidates =
     (case idx ck of None \<Rightarrow> candidates | Some cs \<Rightarrow> candidates @ cs)"

definition candidates_of :: "(string \<Rightarrow> string list) \<Rightarrow> (string \<rightharpoonup> string list) \<Rightarrow> string \<Rightarrow> string list" where
  "candidates_of iter idx field =
     fold (extend_from idx) (iter field) (extend_from idx (canonical_key field) [])"

text \<open>The loop that keeps the first occurrence of every candidate.\<close>

fun dedupe :: "string list \<Rightarrow> string list \<Rightarrow> string set \<Rightarrow> string list" where
  "dedupe [] deduped seen = deduped"
| "dedupe (c # cs) deduped seen =
     (if c \<notin> seen then dedupe cs (deduped @ [c]) (insert c seen) else dedupe cs deduped seen)"

text \<open>\<open>matched[field] = col\<close> on a dictionary kept in insertion order.\<close>

fun dict_set :: "(string \<times> string) list \<Rightarrow> string \<Rightarrow> string \<Rightarrow> (string \<times> string) list" where
  "dict_set [] k v = [(k, v)]"
| "dict_set ((k', v') # kvs) k v =
     (if k' = k then (k, v) # kvs else (k', v') # dict_set kvs k v)"

text \<open>One pass of the loop over \<open>logical_fields\<close>.\<close>

definition match_field :: "(string \<Rightarrow> string list) \<Rightarrow> string list \<Rightarrow> (string \<rightharpoonup> string list) \<Rightarrow>
    string \<Rightarrow> (string \<times> string) list \<Rightarrow> (string \<times> string) list" where
  "match_field iter cols idx field matched =
     (if field \<in> set cols then dict_set matched field field
      else let deduped = dedupe (candidates_of iter idx field) [] {}
           in if length deduped = 1 then dict_set matched field (deduped ! 0) else matched)"

definition match_required_fields :: "(string \<Rightarrow> string list) \<Rightarrow> string list \<Rightarrow>
    (string \<times> string) list \<times> string list" where
  "match_required_fields iter cols =
     (let idx = canonical_to_cols cols;
          matched = fold (match_field iter cols idx) logical_fields [];
          missing = filter (\<lambda>f. map_of matched f = None) logical_fields
      in (matched, missing))"

text \<open>
  The canonical keys under which a field is looked up, the columns they select, and the
  column, if any, that one pass of the loop binds the field to.
\<close>

definition field_keys :: "string \<Rightarrow> string set" where
  "field_keys field = insert (canonical_key field) (alias_set field)"

definition candidate_set :: "string list \<Rightarrow> string \<Rightarrow> string set" where
  "candidate_set cols field = {c \<in> set cols. canonical_key c \<in> field_keys field}"

definition bound_column :: "(string \<Rightarrow> string list) \<Rightarrow> string list \<Rightarrow> string \<Rightarrow> string option" where
  "bound_column iter cols field =
     (if field \<in> set cols then Some field
      else (case dedupe (candidates_of iter (canonical_to_cols cols) field) [] {} of
              [c] \<Rightarrow> Some c | _ \<Rightarrow> None))"

section \<open>Tables\<close>

text \<open>
  The part of pandas that \<open>load_data\<close> uses. A cell is absent (\<open>NaN\<close>), a number or a
  string; the type \<open>'n\<close> of numbers is left open. A frame has its column labels, which
  need not be distinct, and its rows, each as long as the list of labels.
\<close>

datatype 'n cell = NaN | Num 'n | Str string

record 'n frame =
  df_columns :: "string list"
  df_rows :: "'n cell list list"

definition rectangular :: "'n frame \<Rightarrow> bool" where
  "rectangular df = (\<forall>r \<in> set (df_rows df). length r = length (df_columns df))"

datatype error = KeyError | TypeError | AttributeError

text \<open>
  \<open>df[name]\<close> is a one-dimensional \<open>Series\<close> when exactly one column carries the label,
  a two-dimensional \<open>DataFrame\<close> of all the columns that carry it when several do, and
  raises \<open>KeyError\<close> when none does.
\<close>

datatype 'n selection = Series "'n cell list" | DataFrame "'n cell list list"

definition positions :: "string \<Rightarrow> string list \<Rightarrow> nat list" where
  "positions name ls = filter (\<lambda>i. ls ! i = name) [0..<length ls]"

definition getitem :: "'n frame \<Rightarrow> string \<Rightarrow> error + 'n selection" where
  "getitem df name =
     (case positions name (df_columns df) of
        [] \<Rightarrow> Inl KeyError
      | [i] \<Rightarrow> Inr (Series (map (\<lambda>r. r ! i) (df_rows df)))
      | i # j # js \<Rightarrow> Inr (DataFrame (map (\<lambda>r. map (\<lambda>k. r ! k) (i # j # js)) (df_rows df))))"

text \<open>
  \<open>df[name] = values\<close> overwrites every column that carries the label, row by row, and
  appends a new column when none does.
\<close>

definition setitem :: "'n frame \<Rightarrow> string \<Rightarrow> 'n cell list \<Rightarrow> 'n frame" where
  "setitem df name vals =
     (case positions name (df_columns df) of
        [] \<Rightarrow> \<lparr>df_columns = df_columns df @ [name],
               df_rows = map2 (\<lambda>r v. r @ [v]) (df_rows df) vals\<rparr>
      | ps \<Rightarrow> df\<lparr>df_rows := map2 (\<lambda>r v. fold (\<lambda>i r'. r'[i := v]) ps r) (df_rows df) vals\<rparr>)"

text \<open>
  \<open>pd.to_numeric(arg, errors="coerce")\<close>: a number stays, a string becomes the number
  that \<open>parse\<close> reads from it or \<open>NaN\<close> when it reads none, and a two-dimensional
  argument raises \<open>TypeError\<close>.
\<close>

definition numeric_cell :: "(string \<Rightarrow> 'n option) \<Rightarrow> 'n cell \<Rightarrow> 'n cell" where
  "numeric_cell parse c =
     (case c of NaN \<Rightarrow> NaN | Num n \<Rightarrow> Num n
      | Str s \<Rightarrow> (case parse s of None \<Rightarrow> NaN | Some n \<Rightarrow> Num n))"

definition to_numeric :: "(string \<Rightarrow> 'n option) \<Rightarrow> 'n selection \<Rightarrow> error + 'n cell list" where
  "to_numeric parse arg =
     (case arg of Series cs \<Rightarrow> Inr (map (numeric_cell parse) cs)
      | DataFrame _ \<Rightarrow> Inl TypeError)"

text \<open>\<open>df.dropna(subset=[name])\<close> keeps the rows with a value under the label.\<close>

definition dropna :: "'n frame \<Rightarrow> string \<Rightarrow> error + 'n frame" where
  "dropna df name =
     (case positions name (df_columns df) of
        [] \<Rightarrow> Inl KeyError
      | ps \<Rightarrow> Inr (df\<lparr>df_rows := filter (\<lambda>r. \<forall>i \<in> set ps. r ! i \<noteq> NaN) (df_rows df)\<rparr>))"

text \<open>
  \<open>.astype(str)\<close> turns every cell into a string, as pandas does for columns of Python
  objects and of floats: an absent one into \<open>nan\<close> and a number into its text
  \<open>repr n\<close>; it works on one and on two dimensions. \<open>.str.strip()\<close> exists
  on a \<open>Series\<close> only (\<open>AttributeError\<close> otherwise); it strips the strings and yields
  \<open>NaN\<close> for a cell that is no string.
\<close>

definition str_cell :: "('n \<Rightarrow> string) \<Rightarrow> 'n cell \<Rightarrow> 'n cell" where
  "str_cell repr c = (case c of NaN \<Rightarrow> Str ''nan'' | Num n \<Rightarrow> Str (repr n) | Str s \<Rightarrow> Str s)"

definition astype_str :: "('n \<Rightarrow> string) \<Rightarrow> 'n selection \<Rightarrow> 'n selection" where
  "astype_str repr sel =
     (case sel of Series cs \<Rightarrow> Series (map (str_cell repr) cs)
      | DataFrame rs \<Rightarrow> DataFrame (map (map (str_cell repr)) rs))"

definition strip_cell :: "'n cell \<Rightarrow> 'n cell" where
  "strip_cell c = (case c of Str s \<Rightarrow> Str (str_strip s) | _ \<Rightarrow> NaN)"

definition str_strip_series :: "'n selection \<Rightarrow> error + 'n cell list" where
  "str_strip_series sel =
     (case sel of Series cs \<Rightarrow> Inr (map strip_cell cs) | DataFrame _ \<Rightarrow> Inl AttributeError)"

text \<open>\<open>df.rename(columns=mapping)\<close>\<close>

definition rename :: "'n frame \<Rightarrow> (string \<rightharpoonup> string) \<Rightarrow> 'n frame" where
  "rename df mapping =
     df\<lparr>df_columns := map (\<lambda>c. case mapping c of None \<Rightarrow> c | Some l \<Rightarrow> l) (df_columns df)\<rparr>"

text \<open>One cell of a row replaced by a function of its old value.\<close>

definition update_at :: "nat \<Rightarrow> ('a \<Rightarrow> 'a) \<Rightarrow> 'a list \<Rightarrow> 'a list" where
  "update_at i h r = r[i := h (r ! i)]"

section \<open>Loader\<close>

text \<open>
  What \<open>pd.read_csv\<close> did: it returned a table, raised \<open>FileNotFoundError\<close>, or raised
  another \<open>Exception\<close> \<open>e\<close>, kept as the text \<open>str(e)\<close>.
\<close>

datatype 'n read_csv = Table "'n frame" | FileNotFoundError | Exception string

datatype detail = NoDetail | Message string | Fields "string list"

type_synonym 'n loaded = "'n frame option \<times> string \<times> detail \<times> (string \<times> string) list option"

text \<open>\<open>{actual: logical for logical, actual in matched.items()}\<close>\<close>

definition rename_to_logical :: "(string \<times> string) list \<Rightarrow> (string \<rightharpoonup> string)" where
  "rename_to_logical matched =
     fold (\<lambda>(logical, actual) m. m(actual \<mapsto> logical)) matched Map.empty"

text \<open>The loop \<open>for col in [...]: df[col] = df[col].astype(str).str.strip()\<close>.\<close>

fun strip_columns :: "('n \<Rightarrow> string) \<Rightarrow> string list \<Rightarrow> 'n frame \<Rightarrow> error + 'n frame" where
  "strip_columns repr [] df = Inr df"
| "strip_columns repr (col # cols) df =
     (case getitem df col of
        Inl e \<Rightarrow> Inl e
      | Inr sel \<Rightarrow>
          (case str_strip_series (astype_str repr sel) of
             Inl e \<Rightarrow> Inl e
           | Inr vals \<Rightarrow> strip_columns repr cols (setitem df col vals)))"

text \<open>\<open>df[name] = pd.to_numeric(df[name], errors="coerce")\<close>\<close>

definition coerce_numeric :: "(string \<Rightarrow> 'n option) \<Rightarrow> string \<Rightarrow> 'n frame \<Rightarrow> error + 'n frame" where
  "coerce_numeric parse name df =
     (case getitem df name of
        Inl e \<Rightarrow> Inl e
      | Inr sel \<Rightarrow>
          (case to_numeric parse sel of
             Inl e \<Rightarrow> Inl e
           | Inr vals \<Rightarrow> Inr (setitem df name vals)))"

text \<open>
  \<open>load_data\<close>, from the outcome of the read on. \<open>Inl\<close> is an exception that leaves
  the function, \<open>Inr\<close> the tuple it returns.
\<close>

definition load_data :: "(string \<Rightarrow> string list) \<Rightarrow> (string \<Rightarrow> 'n option) \<Rightarrow> ('n \<Rightarrow> string) \<Rightarrow>
    'n read_csv \<Rightarrow> error + 'n loaded" where
  "load_data iter parse repr outcome =
     (case outcome of
        FileNotFoundError \<Rightarrow> Inr (None, ''file_not_found'', NoDetail, None)
      | Exception e \<Rightarrow> Inr (None, ''read_error'', Message e, None)
      | Table df0 \<Rightarrow>
          (let df = df0\<lparr>df_columns := map normalize_col_name (df_columns df0)\<rparr>;
               (matched, missing) = match_required_fields iter (df_columns df)
           in if missing \<noteq> [] then Inr (Some df, ''missing_columns'', Fields missing, Some matched)
              else
                (case coerce_numeric parse ''births'' (rename df (rename_to_logical matched)) of
                   Inl e \<Rightarrow> Inl e
                 | Inr df1 \<Rightarrow>
                (case dropna df1 ''births'' of
                   Inl e \<Rightarrow> Inl e
                 | Inr df2 \<Rightarrow>
                (case strip_columns repr [''state_of_residence'', ''month'', ''sex_of_infant''] df2 of
                   Inl e \<Rightarrow> Inl e
                 | Inr df3 \<Rightarrow>
                (case coerce_numeric parse ''month_code'' df3 of
                   Inl e \<Rightarrow> Inl e
                 | Inr df4 \<Rightarrow>
                (case coerce_numeric parse ''year_code'' df4 of
                   Inl e \<Rightarrow> Inl e
                 | Inr df5 \<Rightarrow> Inr (Some df5, ''ok'', NoDetail, Some matched))))))))"

text \<open>
  The labels of the table after the headers are normalized and the bound columns renamed,
  and what the coercions make of a row that is kept: the three text cells trimmed, the two
  code cells made numeric.
\<close>

definition renamed_columns :: "(string \<Rightarrow> string list) \<Rightarrow> string list \<Rightarrow> string list" where
  "renamed_columns iter headers =
     (let cols = map normalize_col_name headers;
          mapping = rename_to_logical (fst (match_required_fields iter cols))
      in map (\<lambda>c. case mapping c of None \<Rightarrow> c | Some l \<Rightarrow> l) cols)"

definition text_cell :: "('n \<Rightarrow> string) \<Rightarrow> 'n cell \<Rightarrow> 'n cell" where
  "text_cell repr c = strip_cell (str_cell repr c)"

definition finish_row :: "(string \<Rightarrow> 'n option) \<Rightarrow> ('n \<Rightarrow> string) \<Rightarrow> nat \<Rightarrow> nat \<Rightarrow> nat \<Rightarrow> nat \<Rightarrow> nat \<Rightarrow>
    'n cell list \<Rightarrow> 'n cell list" where
  "finish_row parse repr i_state i_month i_sex i_mcode i_ycode r =
     update_at i_ycode (numeric_cell parse)
       (update_at i_mcode (numeric_cell parse)
         (update_at i_sex (text_cell repr)
           (update_at i_month (text_cell repr)
             (update_at i_state (text_cell repr) r))))"

section \<open>Sample tables\<close>

text \<open>
  Concrete inputs on which the guarantees are exercised: a reader of unsigned decimal
  numbers for \<open>parse\<close>, a table whose headers are bound through aliases, with a birth
  count and a month code that are no numbers and an absent \<open>Gender\<close> cell, what
  \<open>load_data\<close> makes of it, a table with the headers \<open>Births\<close> and \<open>births\<close>, and a
  table that lacks columns.
\<close>

definition isdigit :: "char \<Rightarrow> bool" where
  "isdigit c = (48 \<le> ord c \<and> ord c \<le> 57)"

definition read_int :: "string \<Rightarrow> int option" where
  "read_int s =
     (if s \<noteq> [] \<and> list_all isdigit s
      then Some (fold (\<lambda>c n. 10 * n + (ord c - 48)) s 0) else None)"

definition sample_table :: "int frame" where
  "sample_table =
     \<lparr>df_columns = [''State'', ''Month'', ''Month Code'', ''Year Code'', ''Gender'', ''Birth Count''],
      df_rows =
        [[Str ''Ohio'', Str '' January'', Str ''1'', Num 2025, Str ''F'', Str ''120''],
         [Str ''Ohio'', Str ''January'', Str ''one'', Num 2025, NaN, Str ''7''],
         [Str ''Utah'', Str ''March'', Str ''3'', Num 2025, Str ''M'', Str ''unknown'']]\<rparr>"

definition sample_bound :: "int frame" where
  "sample_bound =
     \<lparr>df_columns = [''state_of_residence'', ''month'', ''month_code'', ''year_code'',
                    ''sex_of_infant'', ''births''],
      df_rows =
        [[Str ''Ohio'', Str ''January'', Num 1, Num 2025, Str ''F'', Num 120],
         [Str ''Ohio'', Str ''January'', NaN, Num 2025, Str ''nan'', Num 7]]\<rparr>"

definition sample_matched :: "(string \<times> string) list" where
  "sample_matched =
     [(''state_of_residence'', ''state''), (''month'', ''month''),
      (''month_code'', ''month_code''), (''year_code'', ''year_code''),
      (''sex_of_infant'', ''gender''), (''births'', ''birth_count'')]"


definition partial_table :: "int frame" where
  "partial_table = \<lparr>df_columns = [''State'', ''Residence State'', ''Births''], df_rows = []\<rparr>"

section \<open>Facts about the normalizer\<close>

lemma filter_str_replace:
  "filter P old = [] \<Longrightarrow> filter P new = [] \<Longrightarrow>
   filter P (str_replace old new s) = filter P s"
proof (induction old new s rule: str_replace.induct)
  case (1 old new)
  show ?case by simp
next
  case (2 old new c cs)
  show ?case
  proof (cases "old \<noteq> [] \<and> take (length old) (c # cs) = old")
    case True
    have "filter P (c # cs) = filter P (take (length old) (c # cs)) @ filter P (drop (length old) (c # cs))"
      by (metis append_take_drop_id filter_append)
    with True 2 show ?thesis
      by (simp add: str_replace.simps(2) [of old new c cs])
  next
    case False
    with 2 show ?thesis
      by (auto simp: str_replace.simps(2) [of old new c cs])
  qed
qed

lemma filter_collapse_underscores:
  "filter isalnum (collapse_underscores s) = filter isalnum s"
proof (induction s rule: collapse_underscores.induct)
  case (1 name)
  have u: "filter isalnum ''__'' = []" "filter isalnum ''_'' = []"
    by (simp_all add: isalnum_def ord_def)
  show ?case
  proof (cases "str_contains ''__'' name")
    case True
    with 1 u show ?thesis
      by (simp add: collapse_underscores.simps [of name] filter_str_replace)
  next
    case False
    then show ?thesis by (simp add: collapse_underscores.simps [of name])
  qed
qed

lemma filter_dropWhile:
  "(\<And>x. Q x \<Longrightarrow> \<not> P x) \<Longrightarrow> filter P (dropWhile Q xs) = filter P xs"
  by (induction xs) auto

lemma isspace_not_isalnum: "isspace c \<Longrightarrow> \<not> isalnum c"
  by (auto simp: isspace_def isalnum_def Let_def)

lemma filter_str_strip: "filter isalnum (str_strip s) = filter isalnum s"
proof -
  have "filter isalnum (str_strip s) = rev (filter isalnum (dropWhile isspace (rev (dropWhile isspace s))))"
    by (simp add: str_strip_def rev_filter)
  also have "\<dots> = rev (filter isalnum (rev (dropWhile isspace s)))"
    by (simp add: filter_dropWhile isspace_not_isalnum)
  also have "\<dots> = filter isalnum s"
    by (simp add: rev_filter filter_dropWhile isspace_not_isalnum)
  finally show ?thesis .
qed

lemma ord_lower_chr:
  "ord (lower_chr c) = (if isupper c then ord c + 32 else ord c)"
  by (auto simp: lower_chr_def ord_def isupper_def Let_def)

lemma isalnum_lower_chr: "isalnum (lower_chr c) = isalnum c"
  by (auto simp: isalnum_def [of "lower_chr c"] ord_lower_chr isupper_def isalnum_def Let_def)



lemma filter_str_lower: "filter isalnum (str_lower s) = str_lower (filter isalnum s)"
  by (simp add: str_lower_def filter_map comp_def isalnum_lower_chr)

lemma canonical_key_eq: "canonical_key s = str_lower (filter isalnum s)"
proof -
  have sp: "filter isalnum '' '' = []" "filter isalnum ''_'' = []"
    by (simp_all add: isalnum_def ord_def)
  show ?thesis
    by (simp add: canonical_key_def normalize_col_name_def filter_collapse_underscores
        filter_str_replace [OF sp] filter_str_lower filter_str_strip)
qed


lemmas char_eval = ord_def isspace_def isupper_def lower_chr_def isalnum_def char_of_def






lemma ascii_isalnum: "isascii c \<Longrightarrow> isalnum c \<Longrightarrow> ascii_alnum (lower_chr c)"
  by (auto simp: isascii_def isalnum_def ascii_alnum_def [of "lower_chr c"] ord_lower_chr isupper_def Let_def)

text \<open>
  C9, as the code has it: the canonical key is the normalized name without every
  character that \<open>str.isalnum\<close> rejects, the underscores of the normalization among
  them; it consists of alphanumeric characters, and of ASCII letters and digits when the
  raw name is ASCII. \<open>str.isalnum\<close> accepts letters and digits beyond ASCII, so the key
  of a raw name with such a character keeps it.
\<close>

theorem canonical_key_alnum:
  "canonical_key raw = filter isalnum (normalize_col_name raw) \<and>
   CHR ''_'' \<notin> set (canonical_key raw) \<and>
   (\<forall>c \<in> set (canonical_key raw). isalnum c) \<and>
   ((\<forall>c \<in> set raw. isascii c) \<longrightarrow> (\<forall>c \<in> set (canonical_key raw). ascii_alnum c))"
proof -
  have "\<not> isalnum (CHR ''_'')" by (simp add: isalnum_def ord_def)
  then have u: "CHR ''_'' \<notin> set (canonical_key raw)"
    by (auto simp: canonical_key_def)
  have a: "\<forall>c \<in> set (canonical_key raw). isalnum c"
    by (simp add: canonical_key_def)
  have b: "\<forall>c \<in> set (canonical_key raw). ascii_alnum c" if "\<forall>c \<in> set raw. isascii c"
    using that by (auto simp: canonical_key_eq str_lower_def ascii_isalnum)
  have d: "canonical_key raw = filter isalnum (normalize_col_name raw)"
    by (simp add: canonical_key_def)
  from d u a b show ?thesis by blast
qed

theorem canonical_key_alnum_witness:
  "list_all isascii ''Birth Count'' \<and> list_all ascii_alnum (canonical_key ''Birth Count'') \<and>
   canonical_key ''Birth Count'' = ''birthcount''"
proof -
  have h: "\<forall>c \<in> set ''Birth Count''. isascii c"
    by (simp add: isascii_def ord_def)
  have k: "canonical_key ''Birth Count'' = ''birthcount''"
    by (simp add: canonical_key_eq str_lower_def char_eval)
  from canonical_key_alnum [of "''Birth Count''"] h
  have "\<forall>c \<in> set (canonical_key ''Birth Count''). ascii_alnum c" by blast
  then have r: "list_all ascii_alnum (canonical_key ''Birth Count'')"
    by (simp only: list_all_iff)
  from h have "list_all isascii ''Birth Count''"
    by (simp only: list_all_iff)
  with r k show ?thesis by (intro conjI)
qed

theorem canonical_key_not_ascii:
  "canonical_key [CHR 0xE9] = [CHR 0xE9] \<and> \<not> ascii_alnum (CHR 0xE9)"
  by (simp add: canonical_key_eq str_lower_def char_eval ascii_alnum_def)


section \<open>Facts about the resolver\<close>

lemma fold_index_column:
  "fold index_column cols idx ck =
     (let cs = filter (\<lambda>c. canonical_key c = ck) cols
      in if cs = [] then idx ck else Some ((case idx ck of None \<Rightarrow> [] | Some xs \<Rightarrow> xs) @ cs))"
proof (induction cols arbitrary: idx)
  case Nil
  show ?case by simp
next
  case (Cons col cols)
  show ?case
    by (simp add: Cons.IH Let_def) (simp add: index_column_def Let_def)
qed

lemma extend_from_canonical_to_cols:
  "extend_from (canonical_to_cols cols) ck cands = cands @ filter (\<lambda>c. canonical_key c = ck) cols"
  by (simp add: extend_from_def canonical_to_cols_def fold_index_column Let_def)

lemma fold_extend_from:
  "fold (extend_from (canonical_to_cols cols)) ks cands =
     cands @ concat (map (\<lambda>k. filter (\<lambda>c. canonical_key c = k) cols) ks)"
  by (induction ks arbitrary: cands) (simp_all add: extend_from_canonical_to_cols)

lemma candidates_of_eq:
  "candidates_of iter (canonical_to_cols cols) field =
     concat (map (\<lambda>k. filter (\<lambda>c. canonical_key c = k) cols) (canonical_key field # iter field))"
  by (simp add: candidates_of_def fold_extend_from extend_from_canonical_to_cols)

lemma set_candidates_of:
  "set (candidates_of iter (canonical_to_cols cols) field) =
     {c \<in> set cols. canonical_key c \<in> insert (canonical_key field) (set (iter field))}"
  by (auto simp: candidates_of_eq)

lemma dedupe_distinct:
  "distinct deduped \<Longrightarrow> seen = set deduped \<Longrightarrow>
   distinct (dedupe cs deduped seen) \<and> set (dedupe cs deduped seen) = set deduped \<union> set cs"
  by (induction cs deduped seen rule: dedupe.induct) auto

lemma dedupe_candidates:
  "distinct (dedupe cs [] {})" "set (dedupe cs [] {}) = set cs"
  using dedupe_distinct [of "[]" "{}" cs] by simp_all

lemma iteration_order_keys:
  "iteration_order iter \<Longrightarrow> field \<in> set logical_fields \<Longrightarrow>
   set (candidates_of iter (canonical_to_cols cols) field) = candidate_set cols field"
  by (simp add: set_candidates_of candidate_set_def field_keys_def iteration_order_def)

lemma singleton_distinct: "distinct xs \<Longrightarrow> set xs = {c} \<Longrightarrow> xs = [c]"
  by (cases xs) (auto simp: distinct_length_2_or_more dest: subset_singletonD)

lemma bound_column_Some:
  assumes "iteration_order iter" "field \<in> set logical_fields"
  shows "bound_column iter cols field = Some c \<longleftrightarrow>
    (if field \<in> set cols then c = field else candidate_set cols field = {c})"
proof (cases "field \<in> set cols")
  case True
  then show ?thesis by (auto simp: bound_column_def)
next
  case False
  let ?d = "dedupe (candidates_of iter (canonical_to_cols cols) field) [] {}"
  have d: "distinct ?d" "set ?d = candidate_set cols field"
    using assms by (simp_all add: dedupe_candidates iteration_order_keys)
  have "(?d = [c]) \<longleftrightarrow> candidate_set cols field = {c}"
    using d singleton_distinct [of ?d c] by auto
  moreover have "bound_column iter cols field = Some c \<longleftrightarrow> ?d = [c]"
    using False by (auto simp: bound_column_def split: list.splits)
  ultimately show ?thesis using False by simp
qed

lemma bound_column_order:
  assumes "iteration_order iter1" "iteration_order iter2" "field \<in> set logical_fields"
  shows "bound_column iter1 cols field = bound_column iter2 cols field"
proof (cases "bound_column iter1 cols field")
  case None
  show ?thesis
  proof (cases "bound_column iter2 cols field")
    case None
    with \<open>bound_column iter1 cols field = None\<close> show ?thesis by simp
  next
    case (Some c)
    then have "bound_column iter1 cols field = Some c"
      using assms by (simp add: bound_column_Some)
    with None show ?thesis by simp
  qed
next
  case (Some c)
  then have "bound_column iter2 cols field = Some c"
    using assms by (simp add: bound_column_Some)
  with Some show ?thesis by simp
qed

lemma match_field_bound_column:
  "match_field iter cols (canonical_to_cols cols) field matched =
     (case bound_column iter cols field of None \<Rightarrow> matched | Some c \<Rightarrow> dict_set matched field c)"
proof (cases "field \<in> set cols")
  case True
  then show ?thesis by (simp add: match_field_def bound_column_def)
next
  case False
  then show ?thesis
    by (cases "dedupe (candidates_of iter (canonical_to_cols cols) field) [] {}" rule: remdups_adj.cases)
      (simp_all add: match_field_def bound_column_def)
qed

lemma dict_set_fresh: "k \<notin> fst ` set kvs \<Longrightarrow> dict_set kvs k v = kvs @ [(k, v)]"
  by (induction kvs) auto

lemma fold_match_field:
  "distinct fs \<Longrightarrow> set fs \<inter> fst ` set matched = {} \<Longrightarrow>
   fold (match_field iter cols (canonical_to_cols cols)) fs matched =
     matched @ List.map_filter (\<lambda>f. map_option (Pair f) (bound_column iter cols f)) fs"
proof (induction fs arbitrary: matched)
  case Nil
  show ?case by (simp add: List.map_filter_simps)
next
  case (Cons f fs)
  show ?case
  proof (cases "bound_column iter cols f")
    case None
    with Cons show ?thesis
      by (simp add: match_field_bound_column List.map_filter_simps)
  next
    case (Some c)
    from Cons.prems have fresh: "f \<notin> fst ` set matched" by auto
    from Cons.prems have "set fs \<inter> fst ` set (matched @ [(f, c)]) = {}" by auto
    with Cons.IH [of "matched @ [(f, c)]"] Cons.prems Some fresh show ?thesis
      by (simp add: match_field_bound_column List.map_filter_simps dict_set_fresh)
  qed
qed

lemma distinct_logical_fields: "distinct logical_fields"
  by (simp add: logical_fields_def)

lemma map_of_map_filter:
  "map_of (List.map_filter (\<lambda>f. map_option (Pair f) (b f)) fs) f =
     (if f \<in> set fs then b f else None)"
  by (induction fs) (auto simp: List.map_filter_simps split: option.splits)

lemma match_required_fields_eq:
  "match_required_fields iter cols =
     (List.map_filter (\<lambda>f. map_option (Pair f) (bound_column iter cols f)) logical_fields,
      filter (\<lambda>f. bound_column iter cols f = None) logical_fields)"
proof -
  have "fold (match_field iter cols (canonical_to_cols cols)) logical_fields [] =
      List.map_filter (\<lambda>f. map_option (Pair f) (bound_column iter cols f)) logical_fields"
    using fold_match_field [of logical_fields "[]" iter cols]
    by (simp add: distinct_logical_fields)
  moreover have "filter (\<lambda>f. map_of (List.map_filter (\<lambda>f. map_option (Pair f)
      (bound_column iter cols f)) logical_fields) f = None) logical_fields =
      filter (\<lambda>f. bound_column iter cols f = None) logical_fields"
    by (rule filter_cong) (simp_all add: map_of_map_filter)
  ultimately show ?thesis
    by (simp add: match_required_fields_def Let_def)
qed

lemma map_of_matched:
  "map_of (fst (match_required_fields iter cols)) f =
     (if f \<in> set logical_fields then bound_column iter cols f else None)"
  by (simp add: match_required_fields_eq map_of_map_filter)

lemma missing_iff:
  "f \<in> set (snd (match_required_fields iter cols)) \<longleftrightarrow>
     f \<in> set logical_fields \<and> map_of (fst (match_required_fields iter cols)) f = None"
  by (auto simp: match_required_fields_eq map_of_map_filter)

lemma canonical_key_fields:
  "canonical_key ''state_of_residence'' = ''stateofresidence''"
  "canonical_key ''month'' = ''month''"
  "canonical_key ''month_code'' = ''monthcode''"
  "canonical_key ''year_code'' = ''yearcode''"
  "canonical_key ''sex_of_infant'' = ''sexofinfant''"
  "canonical_key ''births'' = ''births''"
  by (simp_all add: canonical_key_eq str_lower_def char_eval)

lemma field_keys_fields:
  "field_keys ''state_of_residence'' =
     {''stateofresidence'', ''stateresidence'', ''residencestate'', ''state''}"
  "field_keys ''month'' = {''month''}"
  "field_keys ''month_code'' = {''monthcode''}"
  "field_keys ''year_code'' = {''yearcode''}"
  "field_keys ''sex_of_infant'' =
     {''sexofinfant'', ''infantsex'', ''sex'', ''gender'', ''infantgender''}"
  "field_keys ''births'' =
     {''births'', ''birthcount'', ''birthcounts'', ''numberofbirths'', ''livebirths'',
      ''totalbirths''}"
  by (simp_all add: field_keys_def canonical_key_fields alias_set_def alias_map_def)

lemma field_keys_disjoint:
  "f \<in> set logical_fields \<Longrightarrow> g \<in> set logical_fields \<Longrightarrow> f \<noteq> g \<Longrightarrow>
   k \<in> field_keys f \<Longrightarrow> k \<notin> field_keys g"
  unfolding logical_fields_def
  by (elim disjE conjE | simp add: field_keys_fields)+

lemma iteration_order_written: "iteration_order written_order"
  by (simp add: iteration_order_def logical_fields_def written_order_def alias_set_def alias_map_def)


section \<open>Facts about tables\<close>

lemma positions_snoc:
  "positions name (ls @ [x]) = positions name ls @ (if x = name then [length ls] else [])"
proof -
  have "filter (\<lambda>i. (ls @ [x]) ! i = name) [0..<length ls] = filter (\<lambda>i. ls ! i = name) [0..<length ls]"
    by (rule filter_cong) (simp_all add: nth_append)
  then show ?thesis by (simp add: positions_def)
qed

lemma length_positions: "length (positions name ls) = count_list ls name"
  by (induction ls rule: rev_induct) (simp_all add: positions_snoc, simp add: positions_def)

lemma positions_single:
  "positions name ls = [i] \<Longrightarrow> i < length ls \<and> ls ! i = name"
proof -
  assume "positions name ls = [i]"
  then have "i \<in> set (filter (\<lambda>i. ls ! i = name) [0..<length ls])"
    by (simp add: positions_def)
  then show ?thesis by simp
qed


lemma positions_cong:
  "length ls' = length ls \<Longrightarrow> (\<And>i. i < length ls \<Longrightarrow> (ls' ! i = a) = (ls ! i = b)) \<Longrightarrow>
   positions a ls' = positions b ls"
proof -
  assume l: "length ls' = length ls"
    and e: "\<And>i. i < length ls \<Longrightarrow> (ls' ! i = a) = (ls ! i = b)"
  have "filter (\<lambda>i. ls' ! i = a) [0..<length ls] = filter (\<lambda>i. ls ! i = b) [0..<length ls]"
    by (rule filter_cong) (simp_all add: e)
  with l show ?thesis by (simp add: positions_def)
qed

lemma map2_map: "map2 f xs (map g xs) = map (\<lambda>x. f x (g x)) xs"
  by (induction xs) simp_all

lemma update_at_fun: "update_at i h = (\<lambda>r. r[i := h (r ! i)])"
  by (simp add: update_at_def fun_eq_iff)

lemma coerce_numeric_eq:
  "coerce_numeric parse name df =
     (case positions name (df_columns df) of
        [] \<Rightarrow> Inl KeyError
      | [i] \<Rightarrow> Inr (df\<lparr>df_rows := map (update_at i (numeric_cell parse)) (df_rows df)\<rparr>)
      | i # j # js \<Rightarrow> Inl TypeError)"
  by (simp add: coerce_numeric_def getitem_def setitem_def to_numeric_def map2_map update_at_fun
      split: list.splits)

lemma dropna_eq:
  "dropna df name =
     (case positions name (df_columns df) of
        [] \<Rightarrow> Inl KeyError
      | [i] \<Rightarrow> Inr (df\<lparr>df_rows := filter (\<lambda>r. r ! i \<noteq> NaN) (df_rows df)\<rparr>)
      | i # j # js \<Rightarrow> Inr (df\<lparr>df_rows := filter (\<lambda>r. \<forall>k \<in> set (i # j # js). r ! k \<noteq> NaN) (df_rows df)\<rparr>))"
  by (simp add: dropna_def split: list.splits)

lemma strip_columns_Cons:
  "strip_columns repr (col # cols) df =
     (case positions col (df_columns df) of
        [] \<Rightarrow> Inl KeyError
      | [i] \<Rightarrow> strip_columns repr cols
                 (df\<lparr>df_rows := map (update_at i (\<lambda>c. strip_cell (str_cell repr c))) (df_rows df)\<rparr>)
      | i # j # js \<Rightarrow> Inl AttributeError)"
  by (simp add: getitem_def setitem_def astype_str_def str_strip_series_def map2_map
      update_at_fun comp_def split: list.splits)

section \<open>The resolver's guarantees\<close>

lemma load_data_missing:
  assumes "snd (match_required_fields iter (map normalize_col_name (df_columns df))) \<noteq> []"
  shows "load_data iter parse repr (Table df) =
    Inr (Some (df\<lparr>df_columns := map normalize_col_name (df_columns df)\<rparr>), ''missing_columns'',
         Fields (snd (match_required_fields iter (map normalize_col_name (df_columns df)))),
         Some (fst (match_required_fields iter (map normalize_col_name (df_columns df)))))"
  using assms by (simp add: load_data_def Let_def case_prod_beta)

lemma ambiguous_unbound:
  assumes "iteration_order iter" "field \<in> set logical_fields" "field \<notin> set cols"
    and "c1 \<in> set cols" "c2 \<in> set cols" "c1 \<noteq> c2"
    and "canonical_key c1 \<in> field_keys field" "canonical_key c2 \<in> field_keys field"
  shows "bound_column iter cols field = None"
proof (cases "bound_column iter cols field")
  case None
  then show ?thesis .
next
  case (Some c)
  with assms(1-3) have "candidate_set cols field = {c}"
    by (simp add: bound_column_Some)
  moreover from assms have "c1 \<in> candidate_set cols field" "c2 \<in> candidate_set cols field"
    by (simp_all add: candidate_set_def)
  ultimately show ?thesis using \<open>c1 \<noteq> c2\<close> by auto
qed

lemma ambiguous_missing:
  assumes "iteration_order iter" "field \<in> set logical_fields" "field \<notin> set cols"
    and "c1 \<in> set cols" "c2 \<in> set cols" "c1 \<noteq> c2"
    and "canonical_key c1 \<in> field_keys field" "canonical_key c2 \<in> field_keys field"
  shows "map_of (fst (match_required_fields iter cols)) field = None \<and>
    field \<in> set (snd (match_required_fields iter cols)) \<and>
    (\<forall>df. map normalize_col_name (df_columns df) = cols \<longrightarrow>
       load_data iter parse repr (Table df) =
         Inr (Some (df\<lparr>df_columns := cols\<rparr>), ''missing_columns'',
              Fields (snd (match_required_fields iter cols)),
              Some (fst (match_required_fields iter cols))))"
proof -
  from assms have "bound_column iter cols field = None" by (rule ambiguous_unbound)
  with assms(2) have u: "map_of (fst (match_required_fields iter cols)) field = None"
    by (simp add: map_of_matched)
  with assms(2) have m: "field \<in> set (snd (match_required_fields iter cols))"
    by (simp add: missing_iff)
  then have "snd (match_required_fields iter cols) \<noteq> []" by auto
  then have "load_data iter parse repr (Table df) =
         Inr (Some (df\<lparr>df_columns := cols\<rparr>), ''missing_columns'',
              Fields (snd (match_required_fields iter cols)),
              Some (fst (match_required_fields iter cols)))"
    if "map normalize_col_name (df_columns df) = cols" for df :: "'a frame"
    using that load_data_missing [of iter df parse repr] by simp
  with u m show ?thesis by blast
qed

lemma normalize_State:
  "normalize_col_name ''State'' = ''state''"
  "normalize_col_name ''Residence State'' = ''residence_state''"
  by (simp_all add: normalize_col_name_def str_strip_def str_lower_def str_replace.simps
      collapse_underscores.simps char_eval)

text \<open>
  C1: a field that has no column of exactly its name and for which two different columns
  are candidates, by its own canonical key or by an alias, stays unbound and is reported
  missing, whatever the order in which the aliases are visited; \<open>load_data\<close> then
  returns \<open>missing_columns\<close> with the table. In particular, with headers \<open>State\<close> and
  \<open>Residence State\<close> and no header that normalizes to \<open>state_of_residence\<close>, that field
  is missing and the status is \<open>missing_columns\<close>.
\<close>

theorem ambiguous_field_missing:
  assumes "iteration_order iter"
  shows "(\<forall>field cols c1 c2.
      field \<in> set logical_fields \<and> field \<notin> set cols \<and> c1 \<in> set cols \<and> c2 \<in> set cols \<and>
      c1 \<noteq> c2 \<and> canonical_key c1 \<in> field_keys field \<and> canonical_key c2 \<in> field_keys field \<longrightarrow>
      map_of (fst (match_required_fields iter cols)) field = None \<and>
      field \<in> set (snd (match_required_fields iter cols)) \<and>
      (\<forall>df. map normalize_col_name (df_columns df) = cols \<longrightarrow>
         load_data iter parse repr (Table df) =
           Inr (Some (df\<lparr>df_columns := cols\<rparr>), ''missing_columns'',
                Fields (snd (match_required_fields iter cols)),
                Some (fst (match_required_fields iter cols))))) \<and>
    (\<forall>df. ''State'' \<in> set (df_columns df) \<and> ''Residence State'' \<in> set (df_columns df) \<and>
      ''state_of_residence'' \<notin> set (map normalize_col_name (df_columns df)) \<longrightarrow>
      ''state_of_residence'' \<in>
        set (snd (match_required_fields iter (map normalize_col_name (df_columns df)))) \<and>
      (\<exists>matched missing. load_data iter parse repr (Table df) =
         Inr (Some (df\<lparr>df_columns := map normalize_col_name (df_columns df)\<rparr>),
              ''missing_columns'', Fields missing, Some matched)))"
proof (intro conjI allI impI)
  fix field cols c1 c2
  assume h: "field \<in> set logical_fields \<and> field \<notin> set cols \<and> c1 \<in> set cols \<and> c2 \<in> set cols \<and>
      c1 \<noteq> c2 \<and> canonical_key c1 \<in> field_keys field \<and> canonical_key c2 \<in> field_keys field"
  then have g: "map_of (fst (match_required_fields iter cols)) field = None \<and>
    field \<in> set (snd (match_required_fields iter cols)) \<and>
    (\<forall>df. map normalize_col_name (df_columns df) = cols \<longrightarrow>
       load_data iter parse repr (Table df) =
         Inr (Some (df\<lparr>df_columns := cols\<rparr>), ''missing_columns'',
              Fields (snd (match_required_fields iter cols)),
              Some (fst (match_required_fields iter cols))))"
    using ambiguous_missing [of iter field cols c1 c2 parse repr] assms by blast
  from g show "map_of (fst (match_required_fields iter cols)) field = None" by blast
  from g show "field \<in> set (snd (match_required_fields iter cols))" by blast
  fix df :: "'a frame"
  assume "map normalize_col_name (df_columns df) = cols"
  with g show "load_data iter parse repr (Table df) =
         Inr (Some (df\<lparr>df_columns := cols\<rparr>), ''missing_columns'',
              Fields (snd (match_required_fields iter cols)),
              Some (fst (match_required_fields iter cols)))" by blast
next
  fix df :: "'a frame"
  let ?cols = "map normalize_col_name (df_columns df)"
  assume h: "''State'' \<in> set (df_columns df) \<and> ''Residence State'' \<in> set (df_columns df) \<and>
      ''state_of_residence'' \<notin> set ?cols"
  then have "normalize_col_name ''State'' \<in> set ?cols"
    "normalize_col_name ''Residence State'' \<in> set ?cols"
    by (simp_all only: set_map image_eqI)
  then have c: "''state'' \<in> set ?cols" "''residence_state'' \<in> set ?cols"
    by (simp_all only: normalize_State)
  have k: "canonical_key ''state'' \<in> field_keys ''state_of_residence''"
    "canonical_key ''residence_state'' \<in> field_keys ''state_of_residence''"
    by (simp_all add: field_keys_fields canonical_key_eq str_lower_def char_eval)
  have f: "''state_of_residence'' \<in> set logical_fields"
    by (simp add: logical_fields_def)
  from h have n: "''state_of_residence'' \<notin> set ?cols" by blast
  have d: "''state'' \<noteq> ''residence_state''" by simp
  note g = ambiguous_missing [OF assms f n c d k, of parse repr]
  from g show "''state_of_residence'' \<in> set (snd (match_required_fields iter ?cols))" by blast
  from g show "\<exists>matched missing. load_data iter parse repr (Table df) =
         Inr (Some (df\<lparr>df_columns := ?cols\<rparr>), ''missing_columns'', Fields missing, Some matched)"
    by blast
qed

theorem ambiguous_field_missing_witness:
  "iteration_order written_order \<and>
   ''state_of_residence'' \<in> set (snd (match_required_fields written_order
      (map normalize_col_name [''State'', ''Residence State'', ''Births'']))) \<and>
   (\<exists>matched missing. load_data written_order (\<lambda>s. None :: nat option) (\<lambda>n. [])
      (Table \<lparr>df_columns = [''State'', ''Residence State'', ''Births''], df_rows = []\<rparr>) =
      Inr (Some \<lparr>df_columns = map normalize_col_name [''State'', ''Residence State'', ''Births''],
             df_rows = []\<rparr>, ''missing_columns'', Fields missing, Some matched))"
proof -
  let ?df = "\<lparr>df_columns = [''State'', ''Residence State'', ''Births''], df_rows = []\<rparr> :: nat frame"
  have "''State'' \<in> set (df_columns ?df) \<and> ''Residence State'' \<in> set (df_columns ?df) \<and>
      ''state_of_residence'' \<notin> set (map normalize_col_name (df_columns ?df))"
    by (simp add: normalize_col_name_def str_strip_def str_lower_def str_replace.simps
      collapse_underscores.simps char_eval)
  with ambiguous_field_missing [OF iteration_order_written, of "\<lambda>s. None" "\<lambda>n. []"]
  have "''state_of_residence'' \<in>
        set (snd (match_required_fields written_order (map normalize_col_name (df_columns ?df)))) \<and>
      (\<exists>matched missing. load_data written_order (\<lambda>s. None) (\<lambda>n. []) (Table ?df) =
         Inr (Some (?df\<lparr>df_columns := map normalize_col_name (df_columns ?df)\<rparr>),
              ''missing_columns'', Fields missing, Some matched))"
    by blast
  then show ?thesis using iteration_order_written by simp
qed

text \<open>
  C3: a logical field whose name is itself among the (normalized) column names is bound to
  that column, whatever other columns would match its canonical key or aliases; so a
  column \<open>births\<close> is bound to \<open>births\<close> even beside a column \<open>birth_count\<close>.
\<close>

theorem exact_name_bound:
  assumes "field \<in> set logical_fields" "field \<in> set cols"
  shows "map_of (fst (match_required_fields iter cols)) field = Some field \<and>
    field \<notin> set (snd (match_required_fields iter cols))"
  using assms by (simp add: map_of_matched missing_iff bound_column_def)

theorem exact_name_bound_witness:
  "canonical_key ''birth_count'' \<in> field_keys ''births'' \<and>
   map_of (fst (match_required_fields written_order [''birth_count'', ''births''])) ''births'' =
     Some ''births''"
proof -
  have "canonical_key ''birth_count'' \<in> field_keys ''births''"
    by (simp add: field_keys_fields canonical_key_eq str_lower_def char_eval)
  moreover have "''births'' \<in> set logical_fields" "''births'' \<in> set [''birth_count'', ''births'']"
    by (simp_all add: logical_fields_def)
  note exact_name_bound [OF this, of written_order]
  ultimately show ?thesis by simp
qed

text \<open>
  C7: the result of the resolver does not depend on the order in which the alias sets are
  iterated: any two iteration orders give the same \<open>(matched, missing)\<close>.
\<close>

theorem resolver_deterministic:
  assumes "iteration_order iter1" "iteration_order iter2"
  shows "match_required_fields iter1 cols = match_required_fields iter2 cols"
proof -
  have "bound_column iter1 cols f = bound_column iter2 cols f" if "f \<in> set logical_fields" for f
    using assms that by (rule bound_column_order)
  then have "List.map_filter (\<lambda>f. map_option (Pair f) (bound_column iter1 cols f)) logical_fields =
      List.map_filter (\<lambda>f. map_option (Pair f) (bound_column iter2 cols f)) logical_fields"
    "filter (\<lambda>f. bound_column iter1 cols f = None) logical_fields =
      filter (\<lambda>f. bound_column iter2 cols f = None) logical_fields"
    by (auto simp: List.map_filter_def intro!: map_cong filter_cong arg_cong [where f = "map _"])
  then show ?thesis by (simp add: match_required_fields_eq)
qed

theorem resolver_deterministic_witness:
  "iteration_order written_order \<and> iteration_order (\<lambda>f. rev (written_order f)) \<and>
   written_order ''births'' \<noteq> rev (written_order ''births'') \<and>
   match_required_fields written_order [''state'', ''gender'', ''sex''] =
     match_required_fields (\<lambda>f. rev (written_order f)) [''state'', ''gender'', ''sex'']"
proof -
  have r: "iteration_order (\<lambda>f. rev (written_order f))"
    using iteration_order_written by (simp add: iteration_order_def)
  have "written_order ''births'' \<noteq> rev (written_order ''births'')"
    by (simp add: written_order_def)
  with r iteration_order_written
    resolver_deterministic [OF iteration_order_written r, of "[''state'', ''gender'', ''sex'']"]
  show ?thesis by (intro conjI)
qed

section \<open>Facts about the binding\<close>

lemma positions_eq_single:
  assumes "i < length ls" "ls ! i = name" "count_list ls name = 1"
  shows "positions name ls = [i]"
proof -
  from assms(1,2) have "i \<in> set (positions name ls)" by (simp add: positions_def)
  moreover from assms(3) have "length (positions name ls) = 1" by (simp add: length_positions)
  ultimately show ?thesis by (cases "positions name ls") auto
qed

lemma positions_single_count: "positions name ls = [i] \<Longrightarrow> count_list ls name = 1"
  using length_positions [of name ls] by simp

lemma fold_rename:
  "distinct (map snd kvs) \<Longrightarrow>
   fold (\<lambda>(l, a) m. m(a \<mapsto> l)) kvs m0 a =
     (case map_of (map (\<lambda>(l, a). (a, l)) kvs) a of Some l \<Rightarrow> Some l | None \<Rightarrow> m0 a)"
proof (induction kvs arbitrary: m0)
  case Nil
  show ?case by simp
next
  case (Cons kv kvs)
  obtain l1 a1 where kv: "kv = (l1, a1)" by (cases kv)
  from Cons.prems kv have "a1 \<notin> snd ` set kvs" "distinct (map snd kvs)" by auto
  then have "map_of (map (\<lambda>(l, a). (a, l)) kvs) a1 = None"
    by (force simp: map_of_eq_None_iff)
  with Cons.IH [OF \<open>distinct (map snd kvs)\<close>, of "m0(a1 \<mapsto> l1)"] kv show ?case
    by (auto split: option.splits)
qed

lemma rename_to_logical_iff:
  assumes "distinct (map snd matched)"
  shows "rename_to_logical matched a = Some l \<longleftrightarrow> (l, a) \<in> set matched"
proof -
  have d: "distinct (map fst (map (\<lambda>(l, a). (a, l)) matched))"
    using assms by (simp add: comp_def case_prod_beta)
  have "rename_to_logical matched a = map_of (map (\<lambda>(l, a). (a, l)) matched) a"
    using assms by (simp add: rename_to_logical_def fold_rename split: option.splits)
  also have "\<dots> = Some l \<longleftrightarrow> (a, l) \<in> set (map (\<lambda>(l, a). (a, l)) matched)"
    using d by simp
  also have "\<dots> \<longleftrightarrow> (l, a) \<in> set matched" by auto
  finally show ?thesis .
qed

lemma set_map_filter_Pair:
  "(f, c) \<in> set (List.map_filter (\<lambda>f. map_option (Pair f) (b f)) fs) \<longleftrightarrow>
     f \<in> set fs \<and> b f = Some c"
  by (induction fs) (auto simp: List.map_filter_simps split: option.splits)

lemma map_fst_map_filter_Pair:
  "map fst (List.map_filter (\<lambda>f. map_option (Pair f) (b f)) fs) = filter (\<lambda>f. b f \<noteq> None) fs"
  by (induction fs) (auto simp: List.map_filter_simps split: option.splits)

lemma set_matched:
  "(f, c) \<in> set (fst (match_required_fields iter cols)) \<longleftrightarrow>
     f \<in> set logical_fields \<and> bound_column iter cols f = Some c"
  by (simp add: match_required_fields_eq set_map_filter_Pair)

lemma map_fst_matched:
  "map fst (fst (match_required_fields iter cols)) =
     filter (\<lambda>f. bound_column iter cols f \<noteq> None) logical_fields"
  by (simp add: match_required_fields_eq map_fst_map_filter_Pair)

lemma bound_column_key:
  assumes "iteration_order iter" "f \<in> set logical_fields" "bound_column iter cols f = Some c"
  shows "c \<in> set cols \<and> canonical_key c \<in> field_keys f"
proof (cases "f \<in> set cols")
  case True
  with assms have "c = f" by (simp add: bound_column_Some)
  with True show ?thesis by (simp add: field_keys_def)
next
  case False
  with assms have "candidate_set cols f = {c}" by (simp add: bound_column_Some)
  then have "c \<in> candidate_set cols f" by simp
  then show ?thesis by (simp add: candidate_set_def)
qed

lemma bound_column_inj:
  assumes "iteration_order iter" "f \<in> set logical_fields" "g \<in> set logical_fields"
    and "bound_column iter cols f = Some c" "bound_column iter cols g = Some c"
  shows "f = g"
proof (rule ccontr)
  assume "f \<noteq> g"
  moreover from assms have "canonical_key c \<in> field_keys f" "canonical_key c \<in> field_keys g"
    by (simp_all add: bound_column_key)
  ultimately show False using assms(2,3) field_keys_disjoint by blast
qed

lemma distinct_matched:
  assumes "iteration_order iter"
  shows "distinct (map fst (fst (match_required_fields iter cols)))"
    and "distinct (map snd (fst (match_required_fields iter cols)))"
proof -
  let ?m = "fst (match_required_fields iter cols)"
  show d: "distinct (map fst ?m)"
    by (simp add: map_fst_matched distinct_logical_fields)
  then have dm: "distinct ?m" by (simp add: distinct_map)
  have "inj_on snd (set ?m)"
  proof (rule inj_onI)
    fix x y assume xy: "x \<in> set ?m" "y \<in> set ?m" "snd x = snd y"
    obtain f c where x: "x = (f, c)" by (cases x)
    obtain g c' where y: "y = (g, c')" by (cases y)
    from xy x y have "f \<in> set logical_fields" "g \<in> set logical_fields"
      "bound_column iter cols f = Some c" "bound_column iter cols g = Some c" "c' = c"
      by (simp_all add: set_matched)
    with bound_column_inj [OF assms, of f g cols c] x y show "x = y" by simp
  qed
  with dm show "distinct (map snd ?m)" by (simp add: distinct_map)
qed

section \<open>Facts about the loader\<close>

declare strip_columns.simps(2) [simp del]

lemma load_data_Table:
  "load_data iter parse repr (Table df) =
     (let cols = map normalize_col_name (df_columns df);
          matched = fst (match_required_fields iter cols);
          missing = snd (match_required_fields iter cols);
          df' = df\<lparr>df_columns := renamed_columns iter (df_columns df)\<rparr>
      in if missing \<noteq> []
         then Inr (Some (df\<lparr>df_columns := cols\<rparr>), ''missing_columns'', Fields missing, Some matched)
         else
           (case coerce_numeric parse ''births'' df' of
              Inl e \<Rightarrow> Inl e
            | Inr df1 \<Rightarrow>
           (case dropna df1 ''births'' of
              Inl e \<Rightarrow> Inl e
            | Inr df2 \<Rightarrow>
           (case strip_columns repr [''state_of_residence'', ''month'', ''sex_of_infant''] df2 of
              Inl e \<Rightarrow> Inl e
            | Inr df3 \<Rightarrow>
           (case coerce_numeric parse ''month_code'' df3 of
              Inl e \<Rightarrow> Inl e
            | Inr df4 \<Rightarrow>
           (case coerce_numeric parse ''year_code'' df4 of
              Inl e \<Rightarrow> Inl e
            | Inr df5 \<Rightarrow> Inr (Some df5, ''ok'', NoDetail, Some matched)))))))"
  by (simp add: load_data_def Let_def case_prod_beta rename_def renamed_columns_def
      cong: sum.case_cong)

lemma load_data_ok:
  assumes m: "snd (match_required_fields iter (map normalize_col_name (df_columns df))) = []"
    and cs: "renamed_columns iter (df_columns df) = cs"
    and p: "positions ''births'' cs = [ib]" "positions ''state_of_residence'' cs = [is]"
      "positions ''month'' cs = [imo]" "positions ''sex_of_infant'' cs = [isx]"
      "positions ''month_code'' cs = [imc]" "positions ''year_code'' cs = [iyc]"
  shows "load_data iter parse repr (Table df) =
    Inr (Some (df\<lparr>df_columns := cs,
                  df_rows := map (finish_row parse repr is imo isx imc iyc)
                    (filter (\<lambda>r. r ! ib \<noteq> NaN)
                      (map (update_at ib (numeric_cell parse)) (df_rows df)))\<rparr>),
         ''ok'', NoDetail,
         Some (fst (match_required_fields iter (map normalize_col_name (df_columns df)))))"
  by (simp add: load_data_Table Let_def m cs p coerce_numeric_eq dropna_eq strip_columns_Cons
      finish_row_def [abs_def] text_cell_def [abs_def] comp_def)

lemma load_data_Inr:
  assumes m: "snd (match_required_fields iter (map normalize_col_name (df_columns df))) = []"
    and cs: "renamed_columns iter (df_columns df) = cs"
    and r: "load_data iter parse repr (Table df) = Inr x"
  shows "\<exists>ib is imo isx imc iyc.
      positions ''births'' cs = [ib] \<and> positions ''state_of_residence'' cs = [is] \<and>
      positions ''month'' cs = [imo] \<and> positions ''sex_of_infant'' cs = [isx] \<and>
      positions ''month_code'' cs = [imc] \<and> positions ''year_code'' cs = [iyc]"
proof -
  from r obtain ib where ib: "positions ''births'' cs = [ib]"
    by (cases "positions ''births'' cs" rule: remdups_adj.cases)
      (simp_all add: load_data_Table Let_def m cs coerce_numeric_eq)
  from r obtain "is" where "is": "positions ''state_of_residence'' cs = [is]"
    by (cases "positions ''state_of_residence'' cs" rule: remdups_adj.cases)
      (simp_all add: load_data_Table Let_def m cs ib coerce_numeric_eq dropna_eq strip_columns_Cons)
  from r obtain imo where imo: "positions ''month'' cs = [imo]"
    by (cases "positions ''month'' cs" rule: remdups_adj.cases)
      (simp_all add: load_data_Table Let_def m cs ib "is" coerce_numeric_eq dropna_eq
        strip_columns_Cons)
  from r obtain isx where isx: "positions ''sex_of_infant'' cs = [isx]"
    by (cases "positions ''sex_of_infant'' cs" rule: remdups_adj.cases)
      (simp_all add: load_data_Table Let_def m cs ib "is" imo coerce_numeric_eq dropna_eq
        strip_columns_Cons)
  from r obtain imc where imc: "positions ''month_code'' cs = [imc]"
    by (cases "positions ''month_code'' cs" rule: remdups_adj.cases)
      (simp_all add: load_data_Table Let_def m cs ib "is" imo isx coerce_numeric_eq dropna_eq
        strip_columns_Cons)
  from r obtain iyc where iyc: "positions ''year_code'' cs = [iyc]"
    by (cases "positions ''year_code'' cs" rule: remdups_adj.cases)
      (simp_all add: load_data_Table Let_def m cs ib "is" imo isx imc coerce_numeric_eq dropna_eq
        strip_columns_Cons)
  from ib "is" imo isx imc iyc show ?thesis by blast
qed

lemma all_bound:
  assumes "snd (match_required_fields iter cols) = []" "f \<in> set logical_fields"
  shows "\<exists>c. bound_column iter cols f = Some c"
proof -
  from assms have "bound_column iter cols f \<noteq> None"
    by (auto simp: match_required_fields_eq filter_empty_conv)
  then show ?thesis by auto
qed

lemma renamed_label_iff:
  assumes io: "iteration_order iter" and f: "f \<in> set logical_fields"
    and b: "bound_column iter (map normalize_col_name headers) f = Some c"
    and i: "i < length headers"
  shows "(renamed_columns iter headers ! i = f) = (normalize_col_name (headers ! i) = c)"
proof -
  let ?cols = "map normalize_col_name headers"
  let ?m = "fst (match_required_fields iter ?cols)"
  let ?x = "normalize_col_name (headers ! i)"
  have r: "rename_to_logical ?m a = Some l \<longleftrightarrow>
      l \<in> set logical_fields \<and> bound_column iter ?cols l = Some a" for a l
    using distinct_matched(2) [OF io, of ?cols]
    by (simp add: rename_to_logical_iff set_matched)
  have n: "renamed_columns iter headers ! i =
      (case rename_to_logical ?m ?x of None \<Rightarrow> ?x | Some l \<Rightarrow> l)"
    using i by (simp add: renamed_columns_def Let_def)
  show ?thesis
  proof (cases "rename_to_logical ?m ?x")
    case None
    have "?x \<noteq> c" using None r [of c f] f b by auto
    moreover have "?x \<noteq> f"
    proof
      assume "?x = f"
      with i have "f \<in> set ?cols" by (metis length_map nth_map nth_mem)
      then have "bound_column iter ?cols f = Some f" by (simp add: bound_column_def)
      with b have "c = f" by simp
      with \<open>?x = f\<close> \<open>?x \<noteq> c\<close> show False by simp
    qed
    ultimately show ?thesis using None n by simp
  next
    case (Some l)
    then have l: "l \<in> set logical_fields" "bound_column iter ?cols l = Some ?x"
      by (simp_all add: r)
    show ?thesis
    proof
      assume "renamed_columns iter headers ! i = f"
      with n Some have "l = f" by simp
      with l b show "?x = c" by simp
    next
      assume "?x = c"
      with l b have "l = f" using bound_column_inj [OF io _ f, of l ?cols c] by simp
      with n Some show "renamed_columns iter headers ! i = f" by simp
    qed
  qed
qed

lemma length_renamed_columns: "length (renamed_columns iter headers) = length headers"
  by (simp add: renamed_columns_def Let_def)


lemma label_is_binding:
  assumes "iteration_order iter"
    and "snd (match_required_fields iter (map normalize_col_name headers)) = []"
    and "i < length headers" "f \<in> set logical_fields"
  shows "(renamed_columns iter headers ! i = f) =
    ((f, normalize_col_name (headers ! i)) \<in>
       set (fst (match_required_fields iter (map normalize_col_name headers))))"
proof -
  from all_bound [OF assms(2,4)] obtain c where
    c: "bound_column iter (map normalize_col_name headers) f = Some c" ..
  from renamed_label_iff [OF assms(1,4) c assms(3)] c assms(4) show ?thesis
    by (auto simp: set_matched)
qed

section \<open>The loader's guarantees\<close>

lemma snd_match_required_fields:
  "snd (match_required_fields iter cols) =
     filter (\<lambda>f. map_of (fst (match_required_fields iter cols)) f = None) logical_fields"
  by (simp add: match_required_fields_def Let_def)

lemma load_data_ok_missing:
  assumes "load_data iter parse repr (Table df) = Inr (t, ''ok'', d, m)"
  shows "snd (match_required_fields iter (map normalize_col_name (df_columns df))) = []"
proof (rule ccontr)
  assume "snd (match_required_fields iter (map normalize_col_name (df_columns df))) \<noteq> []"
  from load_data_missing [OF this, of parse repr] assms show False by simp
qed

lemma load_data_Inr_status:
  assumes "snd (match_required_fields iter (map normalize_col_name (df_columns df))) = []"
    and "load_data iter parse repr (Table df) = Inr (t, s, d, m)"
  shows "s = ''ok''"
proof -
  from load_data_Inr [OF assms(1) refl assms(2)] obtain ib "is" imo isx imc iyc where
    "positions ''births'' (renamed_columns iter (df_columns df)) = [ib]"
    "positions ''state_of_residence'' (renamed_columns iter (df_columns df)) = [is]"
    "positions ''month'' (renamed_columns iter (df_columns df)) = [imo]"
    "positions ''sex_of_infant'' (renamed_columns iter (df_columns df)) = [isx]"
    "positions ''month_code'' (renamed_columns iter (df_columns df)) = [imc]"
    "positions ''year_code'' (renamed_columns iter (df_columns df)) = [iyc]"
    by blast
  from load_data_ok [OF assms(1) refl this, of parse repr] assms(2) show ?thesis by simp
qed

text \<open>
  C5: after a successful read \<open>load_data\<close> returns the status \<open>missing_columns\<close> exactly
  when one of the six logical fields is unbound after resolution; it then returns the
  table with its normalized headers, and as detail the unbound fields in the order of
  \<open>logical_fields\<close>.
\<close>

theorem missing_columns_iff:
  assumes "cols = map normalize_col_name (df_columns df)"
    and "matched = fst (match_required_fields iter cols)"
  shows "((\<exists>t d m. load_data iter parse repr (Table df) = Inr (t, ''missing_columns'', d, m)) \<longleftrightarrow>
      (\<exists>f \<in> set logical_fields. map_of matched f = None)) \<and>
    ((\<exists>f \<in> set logical_fields. map_of matched f = None) \<longrightarrow>
      load_data iter parse repr (Table df) =
        Inr (Some (df\<lparr>df_columns := cols\<rparr>), ''missing_columns'',
             Fields (filter (\<lambda>f. map_of matched f = None) logical_fields), Some matched))"
proof -
  let ?missing = "snd (match_required_fields iter cols)"
  have e: "?missing = filter (\<lambda>f. map_of matched f = None) logical_fields"
    using assms(2) by (simp add: snd_match_required_fields)
  then have ne: "?missing \<noteq> [] \<longleftrightarrow> (\<exists>f \<in> set logical_fields. map_of matched f = None)"
    by (simp add: filter_empty_conv)
  have a: "load_data iter parse repr (Table df) =
        Inr (Some (df\<lparr>df_columns := cols\<rparr>), ''missing_columns'',
             Fields (filter (\<lambda>f. map_of matched f = None) logical_fields), Some matched)"
    if "\<exists>f \<in> set logical_fields. map_of matched f = None"
    using that ne e assms load_data_missing [of iter df parse repr] by simp
  have b: "\<exists>f \<in> set logical_fields. map_of matched f = None"
    if "load_data iter parse repr (Table df) = Inr (t, ''missing_columns'', d, m)" for t d m
  proof (rule ccontr)
    assume "\<not> (\<exists>f \<in> set logical_fields. map_of matched f = None)"
    with ne have "?missing = []" by simp
    with load_data_Inr_status [of iter df parse repr t "''missing_columns''" d m] that assms(1)
    show False by simp
  qed
  from a b show ?thesis by blast
qed

text \<open>
  C6: when \<open>load_data\<close> returns \<open>ok\<close>, each of the six logical field names labels
  exactly one column of the returned table, all six fields are bound, no two of them to
  the same column, and the column labelled with a field is the one bound to it.
\<close>

theorem bound_columns_once:
  assumes "iteration_order iter"
    and "load_data iter parse repr (Table df) = Inr (t, ''ok'', d, m)"
  shows "\<exists>df' matched. t = Some df' \<and> m = Some matched \<and>
    (\<forall>f \<in> set logical_fields. count_list (df_columns df') f = 1) \<and>
    map fst matched = logical_fields \<and> distinct (map snd matched) \<and>
    length (df_columns df') = length (df_columns df) \<and>
    (\<forall>i < length (df_columns df). \<forall>f \<in> set logical_fields.
       (df_columns df' ! i = f) = ((f, normalize_col_name (df_columns df ! i)) \<in> set matched))"
proof -
  let ?cols = "map normalize_col_name (df_columns df)"
  let ?cs = "renamed_columns iter (df_columns df)"
  let ?m = "fst (match_required_fields iter ?cols)"
  have mi: "snd (match_required_fields iter ?cols) = []"
    using assms(2) by (rule load_data_ok_missing)
  from load_data_Inr [OF mi refl assms(2)] obtain ib "is" imo isx imc iyc where p:
    "positions ''births'' ?cs = [ib]" "positions ''state_of_residence'' ?cs = [is]"
    "positions ''month'' ?cs = [imo]" "positions ''sex_of_infant'' ?cs = [isx]"
    "positions ''month_code'' ?cs = [imc]" "positions ''year_code'' ?cs = [iyc]"
    by blast
  from load_data_ok [OF mi refl p, of parse repr] assms(2) obtain df' where
    t: "t = Some df'" "m = Some ?m" "df_columns df' = ?cs"
    by auto
  have c: "\<forall>f \<in> set logical_fields. count_list ?cs f = 1"
    using p by (simp add: logical_fields_def positions_single_count)
  have "filter (\<lambda>f. bound_column iter ?cols f \<noteq> None) logical_fields = logical_fields"
    using all_bound [OF mi] by (auto simp: filter_id_conv)
  then have f: "map fst ?m = logical_fields" by (simp add: map_fst_matched)
  have s: "distinct (map snd ?m)" using assms(1) by (rule distinct_matched(2))
  have l: "(?cs ! i = f) = ((f, normalize_col_name (df_columns df ! i)) \<in> set ?m)"
    if "i < length (df_columns df)" "f \<in> set logical_fields" for i f
  proof -
    from all_bound [OF mi that(2)] obtain c where c: "bound_column iter ?cols f = Some c" ..
    from renamed_label_iff [OF assms(1) that(2) c that(1)] c that(2) show ?thesis
      by (auto simp: set_matched)
  qed
  from t c f s l show ?thesis by (simp add: length_renamed_columns)
qed

lemma positions_differ:
  "positions f cs = [i] \<Longrightarrow> positions g cs = [j] \<Longrightarrow> f \<noteq> g \<Longrightarrow> i \<noteq> j"
  using positions_single [of f cs i] positions_single [of g cs j] by auto

lemma coerced_cells:
  assumes "distinct [ib, is, imo, isx, imc, iyc]"
    and "ib < length r" "is < length r" "imo < length r" "isx < length r" "imc < length r"
      "iyc < length r"
  shows "finish_row parse repr is imo isx imc iyc (update_at ib (numeric_cell parse) r) ! ib =
      numeric_cell parse (r ! ib)"
    and "finish_row parse repr is imo isx imc iyc (update_at ib (numeric_cell parse) r) ! is =
      text_cell repr (r ! is)"
    and "finish_row parse repr is imo isx imc iyc (update_at ib (numeric_cell parse) r) ! imo =
      text_cell repr (r ! imo)"
    and "finish_row parse repr is imo isx imc iyc (update_at ib (numeric_cell parse) r) ! isx =
      text_cell repr (r ! isx)"
    and "finish_row parse repr is imo isx imc iyc (update_at ib (numeric_cell parse) r) ! imc =
      numeric_cell parse (r ! imc)"
    and "finish_row parse repr is imo isx imc iyc (update_at ib (numeric_cell parse) r) ! iyc =
      numeric_cell parse (r ! iyc)"
proof -
  from assms(1) have "distinct (rev [ib, is, imo, isx, imc, iyc])"
    by (simp only: distinct_rev)
  with assms show
    "finish_row parse repr is imo isx imc iyc (update_at ib (numeric_cell parse) r) ! ib =
      numeric_cell parse (r ! ib)"
    "finish_row parse repr is imo isx imc iyc (update_at ib (numeric_cell parse) r) ! is =
      text_cell repr (r ! is)"
    "finish_row parse repr is imo isx imc iyc (update_at ib (numeric_cell parse) r) ! imo =
      text_cell repr (r ! imo)"
    "finish_row parse repr is imo isx imc iyc (update_at ib (numeric_cell parse) r) ! isx =
      text_cell repr (r ! isx)"
    "finish_row parse repr is imo isx imc iyc (update_at ib (numeric_cell parse) r) ! imc =
      numeric_cell parse (r ! imc)"
    "finish_row parse repr is imo isx imc iyc (update_at ib (numeric_cell parse) r) ! iyc =
      numeric_cell parse (r ! iyc)"
    by (simp_all add: finish_row_def update_at_def)
qed

lemma kept_rows:
  assumes "\<forall>r \<in> set rows. ib < length r"
  shows "filter (\<lambda>r. r ! ib \<noteq> NaN) (map (update_at ib h) rows) =
    map (update_at ib h) (filter (\<lambda>r. h (r ! ib) \<noteq> NaN) rows)"
proof -
  have "filter ((\<lambda>r. r ! ib \<noteq> NaN) \<circ> update_at ib h) rows = filter (\<lambda>r. h (r ! ib) \<noteq> NaN) rows"
    by (rule filter_cong) (use assms in \<open>simp_all add: update_at_def\<close>)
  then show ?thesis by (simp add: filter_map)
qed



lemma loaded_rows:
  assumes rect: "rectangular df"
    and ok: "load_data iter parse repr (Table df) = Inr (t, ''ok'', d, m)"
  shows "\<exists>df' ib is imo isx imc iyc.
    t = Some df' \<and> m = Some (fst (match_required_fields iter (map normalize_col_name (df_columns df)))) \<and>
    df_columns df' = renamed_columns iter (df_columns df) \<and>
    positions ''births'' (df_columns df') = [ib] \<and>
    positions ''state_of_residence'' (df_columns df') = [is] \<and>
    positions ''month'' (df_columns df') = [imo] \<and>
    positions ''sex_of_infant'' (df_columns df') = [isx] \<and>
    positions ''month_code'' (df_columns df') = [imc] \<and>
    positions ''year_code'' (df_columns df') = [iyc] \<and>
    (\<exists>F. df_rows df' = map F (filter (\<lambda>r. numeric_cell parse (r ! ib) \<noteq> NaN) (df_rows df)) \<and>
      (\<forall>r \<in> set (df_rows df).
         F r ! ib = numeric_cell parse (r ! ib) \<and> F r ! is = text_cell repr (r ! is) \<and>
         F r ! imo = text_cell repr (r ! imo) \<and> F r ! isx = text_cell repr (r ! isx) \<and>
         F r ! imc = numeric_cell parse (r ! imc) \<and> F r ! iyc = numeric_cell parse (r ! iyc)))"
proof -
  let ?cs = "renamed_columns iter (df_columns df)"
  let ?F = "\<lambda>is imo isx imc iyc ib r.
    finish_row parse repr is imo isx imc iyc (update_at ib (numeric_cell parse) r)"
  have mi: "snd (match_required_fields iter (map normalize_col_name (df_columns df))) = []"
    using ok by (rule load_data_ok_missing)
  from load_data_Inr [OF mi refl ok] obtain ib "is" imo isx imc iyc where p:
    "positions ''births'' ?cs = [ib]" "positions ''state_of_residence'' ?cs = [is]"
    "positions ''month'' ?cs = [imo]" "positions ''sex_of_infant'' ?cs = [isx]"
    "positions ''month_code'' ?cs = [imc]" "positions ''year_code'' ?cs = [iyc]"
    by blast
  have len: "ib < length r" "is < length r" "imo < length r" "isx < length r" "imc < length r"
    "iyc < length r" if "r \<in> set (df_rows df)" for r
    using p [THEN positions_single] rect that
    by (simp_all add: rectangular_def length_renamed_columns)
  have dist: "distinct [ib, is, imo, isx, imc, iyc]"
    using p(1) [THEN positions_differ, OF p(2)] p(1) [THEN positions_differ, OF p(3)]
      p(1) [THEN positions_differ, OF p(4)] p(1) [THEN positions_differ, OF p(5)]
      p(1) [THEN positions_differ, OF p(6)] p(2) [THEN positions_differ, OF p(3)]
      p(2) [THEN positions_differ, OF p(4)] p(2) [THEN positions_differ, OF p(5)]
      p(2) [THEN positions_differ, OF p(6)] p(3) [THEN positions_differ, OF p(4)]
      p(3) [THEN positions_differ, OF p(5)] p(3) [THEN positions_differ, OF p(6)]
      p(4) [THEN positions_differ, OF p(5)] p(4) [THEN positions_differ, OF p(6)]
      p(5) [THEN positions_differ, OF p(6)]
    by simp
  have k: "filter (\<lambda>r. r ! ib \<noteq> NaN) (map (update_at ib (numeric_cell parse)) (df_rows df)) =
    map (update_at ib (numeric_cell parse))
      (filter (\<lambda>r. numeric_cell parse (r ! ib) \<noteq> NaN) (df_rows df))"
    by (rule kept_rows) (simp add: len)
  define df' where "df' = df\<lparr>df_columns := ?cs,
      df_rows := map (?F is imo isx imc iyc ib)
         (filter (\<lambda>r. numeric_cell parse (r ! ib) \<noteq> NaN) (df_rows df))\<rparr>"
  have "load_data iter parse repr (Table df) = Inr (Some df', ''ok'', NoDetail,
      Some (fst (match_required_fields iter (map normalize_col_name (df_columns df)))))"
    unfolding load_data_ok [OF mi refl p, of parse repr] k df'_def by (simp add: comp_def)
  with ok have t: "t = Some df'"
      "m = Some (fst (match_required_fields iter (map normalize_col_name (df_columns df))))"
    by simp_all
  have t': "df_columns df' = ?cs"
      "df_rows df' = map (?F is imo isx imc iyc ib)
         (filter (\<lambda>r. numeric_cell parse (r ! ib) \<noteq> NaN) (df_rows df))"
    by (simp_all add: df'_def)
  have c: "?F is imo isx imc iyc ib r ! ib = numeric_cell parse (r ! ib) \<and>
         ?F is imo isx imc iyc ib r ! is = text_cell repr (r ! is) \<and>
         ?F is imo isx imc iyc ib r ! imo = text_cell repr (r ! imo) \<and>
         ?F is imo isx imc iyc ib r ! isx = text_cell repr (r ! isx) \<and>
         ?F is imo isx imc iyc ib r ! imc = numeric_cell parse (r ! imc) \<and>
         ?F is imo isx imc iyc ib r ! iyc = numeric_cell parse (r ! iyc)"
    if "r \<in> set (df_rows df)" for r
    using coerced_cells [OF dist len [OF that], of parse repr] by simp
  show ?thesis
    apply (rule exI [of _ df'], rule exI [of _ ib], rule exI [of _ "is"], rule exI [of _ imo],
        rule exI [of _ isx], rule exI [of _ imc], rule exI [of _ iyc])
    apply (simp only: t t' p simp_thms)
    apply (rule exI [of _ "?F is imo isx imc iyc ib"])
    apply (simp only: simp_thms)
    using c apply blast
    done
qed

text \<open>
  C4: when a rectangular table binds (status \<open>ok\<close>), the returned table has the rows
  of the input, in their order, without exactly those whose cell in the column bound to
  \<open>births\<close> fails numeric coercion: its row count is the input's minus the number of
  such rows. A kept row carries the coerced births value, and in the columns bound to
  \<open>month_code\<close> and \<open>year_code\<close> the coerced value, which is absent when the coercion
  fails.
\<close>

theorem row_drop_law:
  assumes "iteration_order iter" "rectangular df"
    and "load_data iter parse repr (Table df) = Inr (t, ''ok'', d, m)"
  shows "\<exists>df' matched ib imc iyc.
    t = Some df' \<and> m = Some matched \<and>
    positions ''births'' (df_columns df') = [ib] \<and>
    positions ''month_code'' (df_columns df') = [imc] \<and>
    positions ''year_code'' (df_columns df') = [iyc] \<and>
    (''births'', normalize_col_name (df_columns df ! ib)) \<in> set matched \<and>
    (''month_code'', normalize_col_name (df_columns df ! imc)) \<in> set matched \<and>
    (''year_code'', normalize_col_name (df_columns df ! iyc)) \<in> set matched \<and>
    length (df_rows df') =
      length (df_rows df) - length (filter (\<lambda>r. numeric_cell parse (r ! ib) = NaN) (df_rows df)) \<and>
    map (\<lambda>r. r ! ib) (df_rows df') =
      map (\<lambda>r. numeric_cell parse (r ! ib))
        (filter (\<lambda>r. numeric_cell parse (r ! ib) \<noteq> NaN) (df_rows df)) \<and>
    map (\<lambda>r. r ! imc) (df_rows df') =
      map (\<lambda>r. numeric_cell parse (r ! imc))
        (filter (\<lambda>r. numeric_cell parse (r ! ib) \<noteq> NaN) (df_rows df)) \<and>
    map (\<lambda>r. r ! iyc) (df_rows df') =
      map (\<lambda>r. numeric_cell parse (r ! iyc))
        (filter (\<lambda>r. numeric_cell parse (r ! ib) \<noteq> NaN) (df_rows df))"
proof -
  let ?kept = "\<lambda>ib. filter (\<lambda>r. numeric_cell parse (r ! ib) \<noteq> NaN) (df_rows df)"
  from loaded_rows [OF assms(2,3)] obtain df' ib "is" imo isx imc iyc F where
    t: "t = Some df'"
      "m = Some (fst (match_required_fields iter (map normalize_col_name (df_columns df))))"
    and cs: "df_columns df' = renamed_columns iter (df_columns df)"
    and p: "positions ''births'' (df_columns df') = [ib]"
      "positions ''month_code'' (df_columns df') = [imc]"
      "positions ''year_code'' (df_columns df') = [iyc]"
    and rows: "df_rows df' = map F (?kept ib)"
    and F: "\<forall>r \<in> set (df_rows df).
         F r ! ib = numeric_cell parse (r ! ib) \<and>
         F r ! imc = numeric_cell parse (r ! imc) \<and> F r ! iyc = numeric_cell parse (r ! iyc)"
    by blast
  have mi: "snd (match_required_fields iter (map normalize_col_name (df_columns df))) = []"
    using assms(3) by (rule load_data_ok_missing)
  have b: "(f, normalize_col_name (df_columns df ! i)) \<in>
          set (fst (match_required_fields iter (map normalize_col_name (df_columns df))))"
    if "positions f (df_columns df') = [i]" "f \<in> set logical_fields" for f i
  proof -
    from positions_single [OF that(1)] cs
    have "i < length (df_columns df)" "renamed_columns iter (df_columns df) ! i = f"
      by (simp_all add: length_renamed_columns)
    with label_is_binding [OF assms(1) mi _ that(2)] show ?thesis by blast
  qed
  have n: "length (?kept ib) =
      length (df_rows df) - length (filter (\<lambda>r. numeric_cell parse (r ! ib) = NaN) (df_rows df))"
    using sum_length_filter_compl [of "\<lambda>r. numeric_cell parse (r ! ib) = NaN" "df_rows df"]
    by simp
  have c: "map (\<lambda>r. r ! i) (map F (?kept ib)) = map (\<lambda>r. numeric_cell parse (r ! i)) (?kept ib)"
    if "\<forall>r \<in> set (df_rows df). F r ! i = numeric_cell parse (r ! i)" for i
    using that by simp
  show ?thesis
    apply (rule exI [of _ df'],
        rule exI [of _ "fst (match_required_fields iter (map normalize_col_name (df_columns df)))"],
        rule exI [of _ ib], rule exI [of _ imc], rule exI [of _ iyc])
    apply (simp only: t p rows simp_thms length_map n)
    apply (intro conjI b p c)
    using F apply (simp_all add: logical_fields_def)
    done
qed





section \<open>The sample tables evaluated\<close>

lemmas str_eval = str_strip_def str_lower_def str_replace.simps collapse_underscores.simps
  normalize_col_name_def

lemmas resolver_eval = match_required_fields_eq logical_fields_def List.map_filter_simps
  bound_column_def candidates_of_eq written_order_def canonical_key_fields

lemma sample_normalized:
  "map normalize_col_name (df_columns sample_table) =
     [''state'', ''month'', ''month_code'', ''year_code'', ''gender'', ''birth_count'']"
  by (simp add: sample_table_def str_eval char_eval)

lemma sample_keys:
  "map canonical_key [''state'', ''month'', ''month_code'', ''year_code'', ''gender'', ''birth_count'']
   = [''state'', ''month'', ''monthcode'', ''yearcode'', ''gender'', ''birthcount'']"
  by (simp add: canonical_key_eq str_lower_def char_eval)

lemma sample_resolved:
  "match_required_fields written_order
     [''state'', ''month'', ''month_code'', ''year_code'', ''gender'', ''birth_count''] =
   (sample_matched, [])"
  using sample_keys by (simp add: resolver_eval sample_matched_def)

lemma sample_renamed:
  "renamed_columns written_order (df_columns sample_table) =
     [''state_of_residence'', ''month'', ''month_code'', ''year_code'', ''sex_of_infant'', ''births'']"
  by (simp add: renamed_columns_def sample_normalized sample_resolved sample_matched_def
      rename_to_logical_def)

lemma sample_positions:
  "positions ''births'' (renamed_columns written_order (df_columns sample_table)) = [5]"
  "positions ''state_of_residence'' (renamed_columns written_order (df_columns sample_table)) = [0]"
  "positions ''month'' (renamed_columns written_order (df_columns sample_table)) = [1]"
  "positions ''sex_of_infant'' (renamed_columns written_order (df_columns sample_table)) = [4]"
  "positions ''month_code'' (renamed_columns written_order (df_columns sample_table)) = [2]"
  "positions ''year_code'' (renamed_columns written_order (df_columns sample_table)) = [3]"
  by (rule positions_eq_single; simp add: sample_renamed)+

lemma sample_loaded:
  "load_data written_order read_int (\<lambda>n. ''0'') (Table sample_table) =
   Inr (Some sample_bound, ''ok'', NoDetail, Some sample_matched)"
proof -
  have m: "snd (match_required_fields written_order (map normalize_col_name
      (df_columns sample_table))) = []"
    by (simp add: sample_normalized sample_resolved)
  show ?thesis
    unfolding load_data_ok [OF m refl sample_positions]
    by (simp add: sample_renamed sample_normalized sample_resolved)
      (simp add: sample_table_def sample_bound_def finish_row_def update_at_def text_cell_def str_cell_def
        strip_cell_def numeric_cell_def read_int_def isdigit_def ord_def str_strip_def
        isspace_def eval_nat_numeral)
qed

lemma sample_rectangular: "rectangular sample_table"
  by (simp add: rectangular_def sample_table_def)






lemma partial_normalized:
  "map normalize_col_name (df_columns partial_table) = [''state'', ''residence_state'', ''births'']"
  by (simp add: partial_table_def str_eval char_eval)

lemma partial_keys:
  "map canonical_key [''state'', ''residence_state'', ''births''] =
     [''state'', ''residencestate'', ''births'']"
  by (simp add: canonical_key_eq str_lower_def char_eval)

lemma partial_resolved:
  "match_required_fields written_order [''state'', ''residence_state'', ''births''] =
   ([(''births'', ''births'')],
    [''state_of_residence'', ''month'', ''month_code'', ''year_code'', ''sex_of_infant''])"
  using partial_keys by (simp add: resolver_eval)

section \<open>The guarantees on the sample tables\<close>

lemma sample_bound_positions:
  "positions ''births'' (df_columns sample_bound) = [5]"
  "positions ''month_code'' (df_columns sample_bound) = [2]"
  "positions ''year_code'' (df_columns sample_bound) = [3]"
  "positions ''sex_of_infant'' (df_columns sample_bound) = [4]"
  by (rule positions_eq_single; simp add: sample_bound_def)+



theorem missing_columns_iff_witness:
  "load_data written_order read_int (\<lambda>n. ''0'') (Table partial_table) =
     Inr (Some (partial_table\<lparr>df_columns := [''state'', ''residence_state'', ''births'']\<rparr>),
          ''missing_columns'',
          Fields [''state_of_residence'', ''month'', ''month_code'', ''year_code'', ''sex_of_infant''],
          Some [(''births'', ''births'')])"
proof -
  have m: "fst (match_required_fields written_order (map normalize_col_name
      (df_columns partial_table))) = [(''births'', ''births'')]"
    by (simp add: partial_normalized partial_resolved)
  have "\<exists>f \<in> set logical_fields. map_of [(''births'', ''births'')] f = None"
    by (simp add: logical_fields_def)
  with missing_columns_iff [OF refl m [symmetric], of read_int "\<lambda>n. ''0''"]
  have "load_data written_order read_int (\<lambda>n. ''0'') (Table partial_table) =
        Inr (Some (partial_table\<lparr>df_columns := map normalize_col_name (df_columns partial_table)\<rparr>),
             ''missing_columns'',
             Fields (filter (\<lambda>f. map_of [(''births'', ''births'')] f = None) logical_fields),
             Some [(''births'', ''births'')])"
    by blast
  then show ?thesis by (simp add: partial_normalized logical_fields_def)
qed

theorem bound_columns_once_witness:
  "iteration_order written_order \<and>
   load_data written_order read_int (\<lambda>n. ''0'') (Table sample_table) =
     Inr (Some sample_bound, ''ok'', NoDetail, Some sample_matched) \<and>
   list_all (\<lambda>f. count_list (df_columns sample_bound) f = 1) logical_fields \<and>
   map fst sample_matched = logical_fields \<and> distinct (map snd sample_matched)"
proof -
  from bound_columns_once [OF iteration_order_written sample_loaded]
  have "(\<forall>f \<in> set logical_fields. count_list (df_columns sample_bound) f = 1) \<and>
    map fst sample_matched = logical_fields \<and> distinct (map snd sample_matched)"
    by auto
  with iteration_order_written sample_loaded show ?thesis
    by (simp only: list_all_iff) blast
qed

theorem row_drop_law_witness:
  "iteration_order written_order \<and> rectangular sample_table \<and>
   load_data written_order read_int (\<lambda>n. ''0'') (Table sample_table) =
     Inr (Some sample_bound, ''ok'', NoDetail, Some sample_matched) \<and>
   length (df_rows sample_table) = 3 \<and>
   filter (\<lambda>r. numeric_cell read_int (r ! 5) = NaN) (df_rows sample_table) =
     [[Str ''Utah'', Str ''March'', Str ''3'', Num 2025, Str ''M'', Str ''unknown'']] \<and>
   length (df_rows sample_bound) =
     length (df_rows sample_table) -
     length (filter (\<lambda>r. numeric_cell read_int (r ! 5) = NaN) (df_rows sample_table)) \<and>
   map (\<lambda>r. r ! 2) (df_rows sample_bound) =
     map (\<lambda>r. numeric_cell read_int (r ! 2))
       (filter (\<lambda>r. numeric_cell read_int (r ! 5) \<noteq> NaN) (df_rows sample_table)) \<and>
   map (\<lambda>r. r ! 2) (df_rows sample_bound) = [Num 1, NaN]"
proof -
  from row_drop_law [OF iteration_order_written sample_rectangular sample_loaded]
  obtain ib imc where
    "positions ''births'' (df_columns sample_bound) = [ib]"
    "positions ''month_code'' (df_columns sample_bound) = [imc]"
    "length (df_rows sample_bound) =
      length (df_rows sample_table) -
      length (filter (\<lambda>r. numeric_cell read_int (r ! ib) = NaN) (df_rows sample_table))"
    "map (\<lambda>r. r ! imc) (df_rows sample_bound) =
      map (\<lambda>r. numeric_cell read_int (r ! imc))
        (filter (\<lambda>r. numeric_cell read_int (r ! ib) \<noteq> NaN) (df_rows sample_table))"
    by auto
  then have r: "length (df_rows sample_bound) =
      length (df_rows sample_table) -
      length (filter (\<lambda>r. numeric_cell read_int (r ! 5) = NaN) (df_rows sample_table))"
    "map (\<lambda>r. r ! 2) (df_rows sample_bound) =
      map (\<lambda>r. numeric_cell read_int (r ! 2))
        (filter (\<lambda>r. numeric_cell read_int (r ! 5) \<noteq> NaN) (df_rows sample_table))"
    by (simp_all add: sample_bound_positions)
  have e: "length (df_rows sample_table) = 3"
    "filter (\<lambda>r. numeric_cell read_int (r ! 5) = NaN) (df_rows sample_table) =
     [[Str ''Utah'', Str ''March'', Str ''3'', Num 2025, Str ''M'', Str ''unknown'']]"
    "map (\<lambda>r. r ! 2) (df_rows sample_bound) = [Num 1, NaN]"
    by (simp_all add: sample_table_def sample_bound_def numeric_cell_def read_int_def
        isdigit_def ord_def)
  from iteration_order_written sample_rectangular sample_loaded r e show ?thesis
    by (intro conjI)
qed


end
